theory Spec2Isabelle
  imports Main "HOL-Library.AList"
begin

section \<open>Replayer construction\<close>

text \<open>
  The constructor of \<^verbatim>\<open>Replayer\<close> (replay/index.ts) starts with
  \<^verbatim>\<open>if (!config?.liveMode && originalEvents.length < 2) throw new Error(...)\<close>.
  The configuration argument is optional and partial: it may be absent, and its
  \<^verbatim>\<open>liveMode\<close> field may be absent.
\<close>

record partialPlayerConfig =
  liveMode :: "bool option"

datatype jsError = Error string

definition liveMode_truthy :: "partialPlayerConfig option \<Rightarrow> bool" where
  "liveMode_truthy config =
     (case config of None \<Rightarrow> False
      | Some c \<Rightarrow> (case liveMode c of None \<Rightarrow> False | Some b \<Rightarrow> b))"

definition Replayer_constructor_check ::
  "partialPlayerConfig option \<Rightarrow> 'e list \<Rightarrow> jsError + unit" where
  "Replayer_constructor_check config originalEvents =
     (if \<not> liveMode_truthy config \<and> length originalEvents < 2
      then Inl (Error ''Replayer need at least 2 events.'')
      else Inr ())"

section \<open>The document tree\<close>

text \<open>
  Both halves of the system work on a host document: a mutable tree of nodes that the
  code addresses by object reference. The embedding keeps the host's data in an
  algebraic forest: every node carries the address \<open>addr\<close> that stands for its object
  identity, and a forest lists the document together with every detached tree (removed
  nodes, fragments). Shadow roots and sub-documents are outside the embedding:
  \<^verbatim>\<open>isShadowRoot\<close> and \<^verbatim>\<open>hasShadowRoot\<close> are false for every node of it.
\<close>

datatype nodeKind =
  DocumentNode | DoctypeNode | ElementNode | TextNode | CDATANode | CommentNode | FragmentNode

text \<open>
  Every node object belongs to the window whose document created it, and takes its
  methods and the classes of the exceptions they raise from that window. The replayer
  runs in one window (\<open>TopWindow\<close>) and rebuilds the recorded page inside an iframe
  (\<open>IframeWindow\<close>), which has classes of its own. For the recorder there is one window
  only, and the field plays no part.
\<close>

datatype realm = TopWindow | IframeWindow

record ninfo =
  addr :: nat
  kind :: nodeKind
  realm :: realm
  tag :: string
  attrs :: "(string \<times> string) list"
  styles :: "(string \<times> string \<times> string) list"
  data :: string
  formValue :: string
  scroll :: "int \<times> int"
  cssRules :: "string list"
  blockClass :: bool
  slimExcluded :: bool

datatype dom = DNode ninfo "dom list"

fun info :: "dom \<Rightarrow> ninfo" where
  "info (DNode i cs) = i"

fun kids :: "dom \<Rightarrow> dom list" where
  "kids (DNode i cs) = cs"

definition dref :: "dom \<Rightarrow> nat" where
  "dref t = addr (info t)"

fun refs :: "dom \<Rightarrow> nat list" where
  "refs (DNode i cs) = addr i # concat (map refs cs)"

text \<open>
  \<open>locate r p pre ts\<close> searches the trees \<open>ts\<close> (children of \<open>p\<close>, with the already
  visited siblings \<open>pre\<close>, nearest first) for the node at address \<open>r\<close> and returns its
  parent, its preceding siblings (nearest first), its subtree and its following
  siblings.
\<close>

fun locate ::
  "nat \<Rightarrow> nat option \<Rightarrow> dom list \<Rightarrow> dom list \<Rightarrow> (nat option \<times> dom list \<times> dom \<times> dom list) option"
where
  "locate r p pre [] = None"
| "locate r p pre (DNode i cs # ts) =
     (if addr i = r then Some (p, pre, DNode i cs, ts)
      else (case locate r (Some (addr i)) [] cs of
              Some c \<Rightarrow> Some c
            | None \<Rightarrow> locate r p (DNode i cs # pre) ts))"

definition lookup :: "dom list \<Rightarrow> nat \<Rightarrow> (nat option \<times> dom list \<times> dom \<times> dom list) option" where
  "lookup F r =
     (case locate r None [] F of
        None \<Rightarrow> None
      | Some (None, pre, t, post) \<Rightarrow> Some (None, [], t, [])
      | Some (Some p, pre, t, post) \<Rightarrow> Some (Some p, pre, t, post))"

definition parentNode :: "dom list \<Rightarrow> nat \<Rightarrow> nat option" where
  "parentNode F r = (case lookup F r of None \<Rightarrow> None | Some (p, pre, t, post) \<Rightarrow> p)"

definition subtree :: "dom list \<Rightarrow> nat \<Rightarrow> dom option" where
  "subtree F r = (case lookup F r of None \<Rightarrow> None | Some (p, pre, t, post) \<Rightarrow> Some t)"

definition childTrees :: "dom list \<Rightarrow> nat \<Rightarrow> dom list" where
  "childTrees F r = (case subtree F r of None \<Rightarrow> [] | Some t \<Rightarrow> kids t)"

definition childNodes :: "dom list \<Rightarrow> nat \<Rightarrow> nat list" where
  "childNodes F r = map dref (childTrees F r)"

definition nextSiblings :: "dom list \<Rightarrow> nat \<Rightarrow> nat list" where
  "nextSiblings F r =
     (case lookup F r of None \<Rightarrow> [] | Some (p, pre, t, post) \<Rightarrow> map dref post)"

definition nextSibling :: "dom list \<Rightarrow> nat \<Rightarrow> nat option" where
  "nextSibling F r = (case nextSiblings F r of [] \<Rightarrow> None | x # xs \<Rightarrow> Some x)"

definition previousSibling :: "dom list \<Rightarrow> nat \<Rightarrow> nat option" where
  "previousSibling F r =
     (case lookup F r of None \<Rightarrow> None
      | Some (p, pre, t, post) \<Rightarrow> (case pre of [] \<Rightarrow> None | x # xs \<Rightarrow> Some (dref x)))"

text \<open>\<^verbatim>\<open>a.contains(b)\<close>: \<open>b\<close> is \<open>a\<close> or one of its descendants.\<close>

definition contains :: "dom list \<Rightarrow> nat \<Rightarrow> nat \<Rightarrow> bool" where
  "contains F a b = (case subtree F a of None \<Rightarrow> False | Some t \<Rightarrow> b \<in> set (refs t))"

text \<open>The nodes of the subtree at \<open>r\<close>; a node the forest does not hold has no children.\<close>

definition subrefs :: "dom list \<Rightarrow> nat \<Rightarrow> nat list" where
  "subrefs F r = (case subtree F r of None \<Rightarrow> [r] | Some t \<Rightarrow> refs t)"

text \<open>The chain of ancestors of a node, nearest first.\<close>

fun ancestors_in :: "nat \<Rightarrow> nat list \<Rightarrow> dom list \<Rightarrow> nat list option" where
  "ancestors_in r anc [] = None"
| "ancestors_in r anc (DNode i cs # ts) =
     (if addr i = r then Some anc
      else (case ancestors_in r (addr i # anc) cs of
              Some a \<Rightarrow> Some a
            | None \<Rightarrow> ancestors_in r anc ts))"

definition ancestors :: "dom list \<Rightarrow> nat \<Rightarrow> nat list" where
  "ancestors F r = (case ancestors_in r [] F of None \<Rightarrow> [] | Some a \<Rightarrow> a)"

definition nodeInfo :: "dom list \<Rightarrow> nat \<Rightarrow> ninfo option" where
  "nodeInfo F r = (case subtree F r of None \<Rightarrow> None | Some t \<Rightarrow> Some (info t))"

section \<open>Deltas\<close>

text \<open>
  The wire shape of a delta (\<^verbatim>\<open>mutationData\<close>): removes, adds, texts and attributes.
  A serialized node is the node without its children. Numbers that may be \<^verbatim>\<open>null\<close> or
  absent are options.
\<close>

datatype NodeType = Document | DocumentType | Element | Text | CDATA | Comment

record serializedNode =
  sn_id :: int
  sn_type :: NodeType
  sn_tagName :: string
  sn_attributes :: "(string \<times> string) list"
  sn_textContent :: string
  sn_rootId :: "int option"
  sn_isShadow :: bool

record removedNodeMutation =
  r_parentId :: int
  r_id :: int
  r_isShadow :: "bool option"

record addedNodeMutation =
  a_parentId :: int
  a_nextId :: "int option"
  a_previousId :: "int option"
  a_node :: serializedNode

datatype styleValue = StyleFalse | StyleString string | StyleWithPriority string string

datatype attrValue = AttrNull | AttrString string | AttrStyle "(string \<times> styleValue) list"

record textMutation =
  t_id :: int
  t_value :: "string option"

record attributeMutation =
  at_id :: int
  at_attributes :: "(string \<times> attrValue) list"

record mutationData =
  texts :: "textMutation list"
  attributes :: "attributeMutation list"
  removes :: "removedNodeMutation list"
  adds :: "addedNodeMutation list"

section \<open>The mutation buffer (record/mutation.ts)\<close>

text \<open>
  The state of a \<^verbatim>\<open>MutationBuffer\<close>, together with what it shares with its
  collaborators: the identity map (\<open>mirror_map\<close> is \<^verbatim>\<open>mirror.map\<close>, from id to node;
  \<open>sn_atlas\<close> is the \<^verbatim>\<open>__sn_atlas\<close> property of the nodes, from node to serialized
  form), the serializer's id counter, and the payloads handed to the emission callback.
  \<open>e_adds\<close> and \<open>addList\<close> are the locals \<^verbatim>\<open>adds\<close> and \<^verbatim>\<open>addList\<close> of \<^verbatim>\<open>emit\<close>.
  A \<^verbatim>\<open>Set<Node>\<close> is a duplicate-free list in insertion order; the keys
  \<^verbatim>\<open>`${id}@${parentId}`\<close> of \<open>movedMap\<close> are pairs.
\<close>

record mutationBuffer =
  frozen :: bool
  locked :: bool
  b_texts :: "(nat \<times> string option) list"
  b_attributes :: "(nat \<times> (string \<times> attrValue) list) list"
  b_removes :: "removedNodeMutation list"
  mapRemoves :: "nat list"
  movedMap :: "(int \<times> int) list"
  addedSet :: "nat list"
  movedSet :: "nat list"
  droppedSet :: "nat list"
  mirror_map :: "(int \<times> nat) list"
  sn_atlas :: "(nat \<times> serializedNode) list"
  next_id :: int
  e_adds :: "addedNodeMutation list"
  addList :: "nat list"
  emitted :: "mutationData list"

definition set_add :: "nat \<Rightarrow> nat list \<Rightarrow> nat list" where
  "set_add n s = (if n \<in> set s then s else s @ [n])"

definition set_delete :: "nat \<Rightarrow> nat list \<Rightarrow> nat list" where
  "set_delete n s = removeAll n s"

text \<open>The id that the serializer gives to a node that slimDOM drops (rrweb-snapshot).\<close>

definition IGNORED_NODE :: int where
  "IGNORED_NODE = - 2"

text \<open>
  Modelled from the spec: the identity map (\<^verbatim>\<open>Mirror\<close>, created in utils, which is not
  part of the sources): \<^verbatim>\<open>getId(node)\<close> is the node's id or \<open>-1\<close>, \<^verbatim>\<open>has(id)\<close> tells
  whether the id is registered, \<^verbatim>\<open>removeNodeFromMap(node)\<close> unregisters the id of a node
  and of its descendants.
\<close>

definition getId :: "mutationBuffer \<Rightarrow> nat \<Rightarrow> int" where
  "getId st n = (case map_of (sn_atlas st) n of None \<Rightarrow> - 1 | Some sn \<Rightarrow> sn_id sn)"

definition getId_opt :: "mutationBuffer \<Rightarrow> nat option \<Rightarrow> int" where
  "getId_opt st n = (case n of None \<Rightarrow> - 1 | Some x \<Rightarrow> getId st x)"

definition mirror_has :: "mutationBuffer \<Rightarrow> int \<Rightarrow> bool" where
  "mirror_has st i = (map_of (mirror_map st) i \<noteq> None)"

definition unregister :: "nat \<Rightarrow> mutationBuffer \<Rightarrow> mutationBuffer" where
  "unregister n st =
     (case map_of (sn_atlas st) n of
        None \<Rightarrow> st
      | Some sn \<Rightarrow> st\<lparr>mirror_map := AList.delete (sn_id sn) (mirror_map st)\<rparr>)"

definition removeNodeFromMap :: "dom list \<Rightarrow> nat \<Rightarrow> mutationBuffer \<Rightarrow> mutationBuffer" where
  "removeNodeFromMap F n st = fold unregister (subrefs F n) st"

definition isINode :: "mutationBuffer \<Rightarrow> nat \<Rightarrow> bool" where
  "isINode st n = (map_of (sn_atlas st) n \<noteq> None)"

text \<open>
  Modelled from the spec: \<^verbatim>\<open>isIgnored\<close>, \<^verbatim>\<open>isBlocked\<close> and \<^verbatim>\<open>isAncestorRemoved\<close> of
  utils, which is not part of the sources. A node is ignored when its identity is the
  slimDOM marker; it is blocked when it or an ancestor carries the block class; an
  ancestor of it was removed when the chain from it up to the document meets a node
  whose id the identity map no longer holds, or ends outside the document.
\<close>

definition isIgnored :: "mutationBuffer \<Rightarrow> nat \<Rightarrow> bool" where
  "isIgnored st n = (case map_of (sn_atlas st) n of None \<Rightarrow> False | Some sn \<Rightarrow> sn_id sn = IGNORED_NODE)"

definition hasBlockClass :: "dom list \<Rightarrow> nat \<Rightarrow> bool" where
  "hasBlockClass F n = (case nodeInfo F n of None \<Rightarrow> False | Some i \<Rightarrow> blockClass i)"

definition isBlocked :: "dom list \<Rightarrow> nat \<Rightarrow> bool" where
  "isBlocked F n = list_ex (hasBlockClass F) (n # ancestors F n)"

definition isDocumentNode :: "dom list \<Rightarrow> nat \<Rightarrow> bool" where
  "isDocumentNode F n = (case nodeInfo F n of None \<Rightarrow> False | Some i \<Rightarrow> kind i = DocumentNode)"

fun isAncestorRemoved_chain :: "dom list \<Rightarrow> mutationBuffer \<Rightarrow> nat list \<Rightarrow> bool" where
  "isAncestorRemoved_chain F st [] = True"
| "isAncestorRemoved_chain F st [t] = True"
| "isAncestorRemoved_chain F st (t # p # ps) =
     (if \<not> mirror_has st (getId st t) then True
      else if isDocumentNode F p then False
      else isAncestorRemoved_chain F st (p # ps))"

definition isAncestorRemoved :: "dom list \<Rightarrow> mutationBuffer \<Rightarrow> nat \<Rightarrow> bool" where
  "isAncestorRemoved F st target = isAncestorRemoved_chain F st (target # ancestors F target)"

subsection \<open>Helpers at the end of mutation.ts\<close>

fun deepDelete_sub :: "dom \<Rightarrow> nat list \<Rightarrow> nat list" where
  "deepDelete_sub (DNode i cs) s = fold deepDelete_sub cs (set_delete (addr i) s)"

definition deepDelete :: "dom list \<Rightarrow> nat list \<Rightarrow> nat \<Rightarrow> nat list" where
  "deepDelete F addsSet n =
     (case subtree F n of None \<Rightarrow> set_delete n addsSet | Some t \<Rightarrow> deepDelete_sub t addsSet)"

fun isParentRemoved_chain :: "removedNodeMutation list \<Rightarrow> mutationBuffer \<Rightarrow> nat list \<Rightarrow> bool" where
  "isParentRemoved_chain rs st [] = False"
| "isParentRemoved_chain rs st (p # ps) =
     (if list_ex (\<lambda>r. r_id r = getId st p) rs then True else isParentRemoved_chain rs st ps)"

definition isParentRemoved :: "dom list \<Rightarrow> removedNodeMutation list \<Rightarrow> mutationBuffer \<Rightarrow> nat \<Rightarrow> bool" where
  "isParentRemoved F rs st n = isParentRemoved_chain rs st (ancestors F n)"

fun isAncestorInSet_chain :: "nat list \<Rightarrow> nat list \<Rightarrow> bool" where
  "isAncestorInSet_chain s [] = False"
| "isAncestorInSet_chain s (p # ps) = (if p \<in> set s then True else isAncestorInSet_chain s ps)"

definition isAncestorInSet :: "dom list \<Rightarrow> nat list \<Rightarrow> nat \<Rightarrow> bool" where
  "isAncestorInSet F s n = isAncestorInSet_chain s (ancestors F n)"

subsection \<open>Classification of structural records\<close>

text \<open>
  A \<^verbatim>\<open>childList\<close> record of the observer: its target, the nodes added under it and the
  nodes removed from it. The tree \<open>F\<close> is the live document when the observer's callback
  runs. (The \<^verbatim>\<open>characterData\<close> and \<^verbatim>\<open>attributes\<close> records, which only fill the text
  and attribute buffers, are not embedded; the theorems below range over every content
  of these buffers.)
\<close>

datatype mutationRecord = ChildList (m_target: nat) (addedNodes: "nat list") (removedNodes: "nat list")

definition moveKey :: "int \<Rightarrow> int \<Rightarrow> int \<times> int" where
  "moveKey i parentId = (i, parentId)"

text \<open>The part of \<^verbatim>\<open>genAdds\<close> before it descends into the children.\<close>

definition genAdds_node :: "nat \<Rightarrow> nat option \<Rightarrow> mutationBuffer \<Rightarrow> mutationBuffer" where
  "genAdds_node n target st =
     (if isINode st n then
        (let st1 = st\<lparr>movedSet := set_add n (movedSet st)\<rparr>;
             targetId = (case target of None \<Rightarrow> None
                         | Some t \<Rightarrow> (if isINode st t then Some (getId st t) else None))
         in (case targetId of
               None \<Rightarrow> st1
             | Some ti \<Rightarrow> (if ti = 0 then st1
                          else st1\<lparr>movedMap := List.insert (moveKey (getId st n) ti) (movedMap st1)\<rparr>)))
      else st\<lparr>addedSet := set_add n (addedSet st), droppedSet := set_delete n (droppedSet st)\<rparr>)"

fun genAdds_sub :: "dom list \<Rightarrow> dom \<Rightarrow> mutationBuffer \<Rightarrow> mutationBuffer" where
  "genAdds_sub F (DNode i cs) st =
     (if isINode st (addr i) \<and> isIgnored st (addr i) then st
      else (let st1 = genAdds_node (addr i) None st
            in if isBlocked F (addr i) then st1 else fold (genAdds_sub F) cs st1))"

definition genAdds :: "dom list \<Rightarrow> nat \<Rightarrow> nat option \<Rightarrow> mutationBuffer \<Rightarrow> mutationBuffer" where
  "genAdds F n target st =
     (if (case target of None \<Rightarrow> False | Some t \<Rightarrow> isBlocked F t) then st
      else if isINode st n \<and> isIgnored st n then st
      else (let st1 = genAdds_node n target st
            in if isBlocked F n then st1 else fold (genAdds_sub F) (childTrees F n) st1))"

definition processRemoved :: "dom list \<Rightarrow> nat \<Rightarrow> nat \<Rightarrow> mutationBuffer \<Rightarrow> mutationBuffer" where
  "processRemoved F target n st =
     (let nodeId = getId st n;
          parentId = getId st target
      in if isBlocked F target \<or> isIgnored st n then st
         else (let st1 =
                 (if n \<in> set (addedSet st) then
                    st\<lparr>addedSet := deepDelete F (addedSet st) n, droppedSet := set_add n (droppedSet st)\<rparr>
                  else if target \<in> set (addedSet st) \<and> nodeId = - 1 then st
                  else if isAncestorRemoved F st target then st
                  else if n \<in> set (movedSet st) \<and> moveKey nodeId parentId \<in> set (movedMap st) then
                    st\<lparr>movedSet := deepDelete F (movedSet st) n\<rparr>
                  else st\<lparr>b_removes := b_removes st @
                            [\<lparr>r_parentId = parentId, r_id = nodeId, r_isShadow = None\<rparr>]\<rparr>)
               in st1\<lparr>mapRemoves := mapRemoves st1 @ [n]\<rparr>))"

definition processMutation :: "dom list \<Rightarrow> mutationRecord \<Rightarrow> mutationBuffer \<Rightarrow> mutationBuffer" where
  "processMutation F m st =
     (if isIgnored st (m_target m) then st
      else (let st1 = fold (\<lambda>n. genAdds F n (Some (m_target m))) (addedNodes m) st
            in fold (processRemoved F (m_target m)) (removedNodes m) st1))"

subsection \<open>Emission\<close>

text \<open>
  Modelled from the spec: the serializer (\<^verbatim>\<open>serializeNodeWithId\<close> of rrweb-snapshot, not
  part of the sources), called with \<^verbatim>\<open>skipChild\<close>: the node without its children, under
  the id it already carries or a fresh one, registered in the identity map; a node that
  policy filters yields \<^verbatim>\<open>null\<close> and is marked with the slimDOM id.
\<close>

definition nodeTypeOf :: "nodeKind \<Rightarrow> NodeType" where
  "nodeTypeOf k =
     (case k of DocumentNode \<Rightarrow> Document | DoctypeNode \<Rightarrow> DocumentType
      | ElementNode \<Rightarrow> Element | TextNode \<Rightarrow> Text | CDATANode \<Rightarrow> CDATA
      | CommentNode \<Rightarrow> Comment | FragmentNode \<Rightarrow> Element)"

definition serialized :: "ninfo \<Rightarrow> int \<Rightarrow> serializedNode" where
  "serialized i n =
     \<lparr>sn_id = n, sn_type = nodeTypeOf (kind i), sn_tagName = tag i, sn_attributes = attrs i,
      sn_textContent = data i, sn_rootId = None, sn_isShadow = False\<rparr>"

definition serializeNodeWithId ::
  "dom list \<Rightarrow> nat \<Rightarrow> mutationBuffer \<Rightarrow> serializedNode option \<times> mutationBuffer" where
  "serializeNodeWithId F n st =
     (case nodeInfo F n of
        None \<Rightarrow> (None, st)
      | Some i \<Rightarrow>
          (if kind i = FragmentNode then (None, st)
           else (case map_of (sn_atlas st) n of
                   Some old \<Rightarrow>
                     (let sn = serialized i (sn_id old);
                          st1 = st\<lparr>sn_atlas := AList.update n sn (sn_atlas st)\<rparr>
                      in if sn_id old = IGNORED_NODE then (None, st1)
                         else (Some sn, st1\<lparr>mirror_map := AList.update (sn_id old) n (mirror_map st1)\<rparr>))
                 | None \<Rightarrow>
                     (if slimExcluded i then
                        (None, st\<lparr>sn_atlas := AList.update n (serialized i IGNORED_NODE) (sn_atlas st)\<rparr>)
                      else
                        (let sn = serialized i (next_id st);
                             st1 = st\<lparr>sn_atlas := AList.update n sn (sn_atlas st),
                                      next_id := next_id st + 1\<rparr>
                         in (Some sn, st1\<lparr>mirror_map := AList.update (next_id st) n (mirror_map st1)\<rparr>))))))"

text \<open>\<^verbatim>\<open>DoubleLinkedList.addNode\<close>: next to a sibling that is in the list, or at the head.\<close>

fun insert_after :: "nat \<Rightarrow> nat \<Rightarrow> nat list \<Rightarrow> nat list" where
  "insert_after p n [] = []"
| "insert_after p n (x # xs) = (if x = p then x # n # xs else x # insert_after p n xs)"

fun insert_before :: "nat \<Rightarrow> nat \<Rightarrow> nat list \<Rightarrow> nat list" where
  "insert_before p n [] = []"
| "insert_before p n (x # xs) = (if x = p then n # x # xs else x # insert_before p n xs)"

definition addNode :: "dom list \<Rightarrow> nat \<Rightarrow> nat list \<Rightarrow> nat list" where
  "addNode F n l =
     (case previousSibling F n of
        Some p \<Rightarrow>
          (if p \<in> set l then insert_after p n l
           else (case nextSibling F n of
                   Some x \<Rightarrow> (if x \<in> set l \<and> hd l \<noteq> x then insert_before x n l else n # l)
                 | None \<Rightarrow> n # l))
      | None \<Rightarrow>
          (case nextSibling F n of
             Some x \<Rightarrow> (if x \<in> set l \<and> hd l \<noteq> x then insert_before x n l else n # l)
           | None \<Rightarrow> n # l))"

text \<open>\<^verbatim>\<open>getNextId\<close>: the id of the first following sibling that slimDOM did not drop.\<close>

fun getNextId_from :: "mutationBuffer \<Rightarrow> nat list \<Rightarrow> int option" where
  "getNextId_from st [] = None"
| "getNextId_from st (ns # rest) =
     (if getId st ns = IGNORED_NODE then getNextId_from st rest else Some (getId st ns))"

definition getNextId :: "dom list \<Rightarrow> mutationBuffer \<Rightarrow> nat \<Rightarrow> int option" where
  "getNextId F st n = getNextId_from st (nextSiblings F n)"

definition pushAdd :: "dom list \<Rightarrow> nat \<Rightarrow> nat \<Rightarrow> mutationBuffer \<Rightarrow> mutationBuffer" where
  "pushAdd F doc n st =
     (if parentNode F n = None \<or> \<not> contains F doc n then st
      else (let parentId = getId_opt st (parentNode F n);
                nextId = getNextId F st n
            in if parentId = - 1 \<or> nextId = Some (- 1) then st\<lparr>addList := addNode F n (addList st)\<rparr>
               else (case serializeNodeWithId F n st of
                       (None, st1) \<Rightarrow> st1
                     | (Some sn, st1) \<Rightarrow>
                         st1\<lparr>e_adds := e_adds st1 @
                               [\<lparr>a_parentId = parentId, a_nextId = nextId, a_previousId = None,
                                 a_node = sn\<rparr>]\<rparr>)))"

definition movedStep :: "dom list \<Rightarrow> nat \<Rightarrow> nat \<Rightarrow> mutationBuffer \<Rightarrow> mutationBuffer" where
  "movedStep F doc n st =
     (if isParentRemoved F (b_removes st) st n
         \<and> \<not> (case parentNode F n of None \<Rightarrow> False | Some p \<Rightarrow> p \<in> set (movedSet st))
      then st else pushAdd F doc n st)"

definition addedStep :: "dom list \<Rightarrow> nat \<Rightarrow> nat \<Rightarrow> mutationBuffer \<Rightarrow> mutationBuffer" where
  "addedStep F doc n st =
     (if \<not> isAncestorInSet F (droppedSet st) n \<and> \<not> isParentRemoved F (b_removes st) st n
      then pushAdd F doc n st
      else if isAncestorInSet F (movedSet st) n then pushAdd F doc n st
      else st\<lparr>droppedSet := set_add n (droppedSet st)\<rparr>)"

text \<open>
  The loop over the pending list. An entry is resolvable when its parent and its next
  sibling have ids. The candidate is the list node before the entry resolved last (the
  membership test stands for that list node still being linked). A pass that finds no
  resolvable entry unlinks every entry and leaves the loop.
\<close>

definition resolvable :: "dom list \<Rightarrow> mutationBuffer \<Rightarrow> nat \<Rightarrow> bool" where
  "resolvable F st n = (getId_opt st (parentNode F n) \<noteq> - 1 \<and> getNextId F st n \<noteq> Some (- 1))"

definition list_previous :: "nat \<Rightarrow> nat list \<Rightarrow> nat option" where
  "list_previous n l =
     (case takeWhile (\<lambda>x. x \<noteq> n) l of [] \<Rightarrow> None | x # xs \<Rightarrow> Some (last (x # xs)))"

definition pick :: "dom list \<Rightarrow> nat option \<Rightarrow> mutationBuffer \<Rightarrow> nat option" where
  "pick F candidate st =
     (case candidate of
        None \<Rightarrow> List.find (resolvable F st) (rev (addList st))
      | Some c \<Rightarrow>
          (if c \<in> set (addList st) \<and> resolvable F st c then Some c
           else List.find (resolvable F st) (rev (addList st))))"

lemma serializeNodeWithId_addList:
  "addList (snd (serializeNodeWithId F n st)) = addList st"
  by (simp add: serializeNodeWithId_def Let_def split: option.splits)

lemma getNextId_from_addList [simp]:
  "getNextId_from (st\<lparr>addList := l\<rparr>) xs = getNextId_from st xs"
  by (induction xs) (simp_all add: getId_def)

lemma resolvable_addList_update [simp]:
  "resolvable F (st\<lparr>addList := l\<rparr>) n = resolvable F st n"
  by (simp add: resolvable_def getId_opt_def getId_def getNextId_def split: option.splits)

lemma pushAdd_resolvable_addList:
  assumes "resolvable F st n"
  shows "addList (pushAdd F doc n st) = addList st"
proof -
  obtain r st1 where s: "serializeNodeWithId F n st = (r, st1)"
    by (cases "serializeNodeWithId F n st")
  with serializeNodeWithId_addList [of F n st] have "addList st1 = addList st"
    by simp
  with assms s show ?thesis
    by (simp add: pushAdd_def resolvable_def Let_def split: option.splits)
qed

lemma find_rev_Some:
  "List.find P (rev l) = Some n \<Longrightarrow> n \<in> set l \<and> P n"
  by (metis find_Some_iff nth_mem set_rev)

lemma pick_Some:
  assumes "pick F candidate st = Some n"
  shows "n \<in> set (addList st) \<and> resolvable F st n"
  using assms find_rev_Some [of "resolvable F st" "addList st" n]
  by (auto simp: pick_def split: option.splits if_splits)

function resolveAddList ::
  "dom list \<Rightarrow> nat \<Rightarrow> nat option \<Rightarrow> mutationBuffer \<Rightarrow> mutationBuffer" where
  "resolveAddList F doc candidate st =
     (if addList st = [] then st
      else (case pick F candidate st of
              None \<Rightarrow> st\<lparr>addList := []\<rparr>
            | Some n \<Rightarrow>
                resolveAddList F doc (list_previous n (addList st))
                  (pushAdd F doc n (st\<lparr>addList := remove1 n (addList st)\<rparr>))))"
  by pat_completeness auto

termination
proof (relation "measure (\<lambda>(F, doc, candidate, st). length (addList st))")
  show "wf (measure (\<lambda>(F, doc, candidate, st). length (addList st)))"
    by simp
next
  fix F :: "dom list" and doc :: nat and candidate :: "nat option"
    and st :: mutationBuffer and n :: nat
  assume "addList st \<noteq> []" and p: "pick F candidate st = Some n"
  from pick_Some [OF p] have mem: "n \<in> set (addList st)" and res: "resolvable F st n"
    by simp_all
  from res have "resolvable F (st\<lparr>addList := remove1 n (addList st)\<rparr>) n"
    by simp
  then have "addList (pushAdd F doc n (st\<lparr>addList := remove1 n (addList st)\<rparr>))
               = remove1 n (addList st)"
    by (simp add: pushAdd_resolvable_addList)
  moreover from mem have "length (remove1 n (addList st)) < length (addList st)"
    using length_pos_if_in_set [of n "addList st"] by (simp add: length_remove1)
  ultimately show
    "((F, doc, list_previous n (addList st),
       pushAdd F doc n (st\<lparr>addList := remove1 n (addList st)\<rparr>)),
      (F, doc, candidate, st)) \<in> measure (\<lambda>(F, doc, candidate, st). length (addList st))"
    by simp
qed

declare resolveAddList.simps [simp del]

definition compose_payload :: "mutationBuffer \<Rightarrow> mutationData" where
  "compose_payload st =
     \<lparr>texts = filter (\<lambda>t. mirror_has st (t_id t))
                (map (\<lambda>(n, v). \<lparr>t_id = getId st n, t_value = v\<rparr>) (b_texts st)),
      attributes = filter (\<lambda>a. mirror_has st (at_id a))
                (map (\<lambda>(n, v). \<lparr>at_id = getId st n, at_attributes = v\<rparr>) (b_attributes st)),
      removes = b_removes st,
      adds = e_adds st\<rparr>"

definition payload_empty :: "mutationData \<Rightarrow> bool" where
  "payload_empty p = (texts p = [] \<and> attributes p = [] \<and> removes p = [] \<and> adds p = [])"

text \<open>The state of \<^verbatim>\<open>emit\<close> when it composes the payload.\<close>

definition emit_prepare :: "dom list \<Rightarrow> nat \<Rightarrow> mutationBuffer \<Rightarrow> mutationBuffer" where
  "emit_prepare F doc st =
     (let st0 = st\<lparr>e_adds := [], addList := []\<rparr>;
          st1 = (fold (removeNodeFromMap F) (mapRemoves st0) st0)\<lparr>mapRemoves := []\<rparr>;
          st2 = fold (movedStep F doc) (movedSet st1) st1;
          st3 = fold (addedStep F doc) (addedSet st2) st2
      in resolveAddList F doc None st3)"

definition reset_buffers :: "mutationBuffer \<Rightarrow> mutationBuffer" where
  "reset_buffers st =
     st\<lparr>b_texts := [], b_attributes := [], b_removes := [], addedSet := [], movedSet := [],
        droppedSet := [], movedMap := []\<rparr>"

definition emit :: "dom list \<Rightarrow> nat \<Rightarrow> mutationBuffer \<Rightarrow> mutationBuffer" where
  "emit F doc st =
     (if frozen st \<or> locked st then st
      else (let st1 = emit_prepare F doc st;
                payload = compose_payload st1
            in if payload_empty payload then st1
               else (reset_buffers st1)\<lparr>emitted := emitted st1 @ [payload]\<rparr>))"

definition processMutations :: "dom list \<Rightarrow> nat \<Rightarrow> mutationRecord list \<Rightarrow> mutationBuffer \<Rightarrow> mutationBuffer" where
  "processMutations F doc mutations st = emit F doc (fold (processMutation F) mutations st)"

definition freeze :: "mutationBuffer \<Rightarrow> mutationBuffer" where
  "freeze st = st\<lparr>frozen := True\<rparr>"

definition unfreeze :: "dom list \<Rightarrow> nat \<Rightarrow> mutationBuffer \<Rightarrow> mutationBuffer" where
  "unfreeze F doc st = emit F doc (st\<lparr>frozen := False\<rparr>)"

definition lock :: "mutationBuffer \<Rightarrow> mutationBuffer" where
  "lock st = st\<lparr>locked := True\<rparr>"

definition unlock :: "dom list \<Rightarrow> nat \<Rightarrow> mutationBuffer \<Rightarrow> mutationBuffer" where
  "unlock F doc st = emit F doc (st\<lparr>locked := False\<rparr>)"

subsection \<open>The time-bounded loop of the specification\<close>

text \<open>
  The specification describes the loop over the pending list as bounded by wall-clock
  time. This second definition follows the specification's words, to be compared with
  \<open>resolveAddList\<close>, which follows the source: \<open>budget\<close> is the number of passes that
  start before the time is up; when it is used up the remainder is dropped.
\<close>

fun resolveAddList_timed ::
  "nat \<Rightarrow> dom list \<Rightarrow> nat \<Rightarrow> nat option \<Rightarrow> mutationBuffer \<Rightarrow> mutationBuffer" where
  "resolveAddList_timed 0 F doc candidate st = st\<lparr>addList := []\<rparr>"
| "resolveAddList_timed (Suc budget) F doc candidate st =
     (if addList st = [] then st
      else (case pick F candidate st of
              None \<Rightarrow> st\<lparr>addList := []\<rparr>
            | Some n \<Rightarrow>
                resolveAddList_timed budget F doc (list_previous n (addList st))
                  (pushAdd F doc n (st\<lparr>addList := remove1 n (addList st)\<rparr>))))"

subsection \<open>Windows of records\<close>

text \<open>
  The records that the observer delivers when a node \<open>n\<close> moves from \<open>A\<close> to \<open>B\<close>, and
  when a node is added under \<open>P\<close> and removed again; and the payload that \<^verbatim>\<open>emit\<close>
  composes after a window of records.
\<close>

definition relocate :: "nat \<Rightarrow> nat \<Rightarrow> nat \<Rightarrow> mutationRecord list" where
  "relocate A B n = [ChildList A [] [n], ChildList B [n] []]"

definition add_then_remove :: "nat \<Rightarrow> nat \<Rightarrow> mutationRecord list" where
  "add_then_remove P n = [ChildList P [n] [], ChildList P [] [n]]"

definition pending_delta :: "dom list \<Rightarrow> nat \<Rightarrow> mutationRecord list \<Rightarrow> mutationBuffer \<Rightarrow> mutationData" where
  "pending_delta F doc ms st = compose_payload (emit_prepare F doc (fold (processMutation F) ms st))"

section \<open>Host operations on the document\<close>

text \<open>
  The host's tree operations, with the exceptions the host raises: \<^verbatim>\<open>removeChild\<close> and
  \<^verbatim>\<open>insertBefore\<close> reject a node that is not a child of the parent (NotFoundError),
  \<^verbatim>\<open>appendChild\<close> and \<^verbatim>\<open>insertBefore\<close> reject a parent that cannot have children, a
  node that contains the parent, and a node that the parent may not hold: a document
  holds no text, one doctype and one element, the doctype in front of the element
  (HierarchyRequestError). A \<^verbatim>\<open>DOMException\<close> is an object of the class of the window
  that the method belongs to, which is the window of the node the method is called on.
  A call of a method that the object does not have is a \<^verbatim>\<open>TypeError\<close>. The host's own
  reactions to a detach (dropping scroll offsets and style sheets) are not modelled.
\<close>

datatype exn = DOMException realm string | TypeError string

fun remove_from :: "nat \<Rightarrow> dom list \<Rightarrow> dom list" where
  "remove_from r [] = []"
| "remove_from r (DNode i cs # ts) =
     (if addr i = r then remove_from r ts else DNode i (remove_from r cs) # remove_from r ts)"

fun map_at :: "nat \<Rightarrow> (dom \<Rightarrow> dom) \<Rightarrow> dom list \<Rightarrow> dom list" where
  "map_at r f [] = []"
| "map_at r f (DNode i cs # ts) =
     (if addr i = r then f (DNode i cs) # ts else DNode i (map_at r f cs) # map_at r f ts)"

definition set_kids :: "dom list \<Rightarrow> dom \<Rightarrow> dom" where
  "set_kids cs t = DNode (info t) cs"

definition set_info :: "(ninfo \<Rightarrow> ninfo) \<Rightarrow> dom \<Rightarrow> dom" where
  "set_info f t = DNode (f (info t)) (kids t)"

definition kindOf :: "dom list \<Rightarrow> nat \<Rightarrow> nodeKind option" where
  "kindOf F r = (case nodeInfo F r of None \<Rightarrow> None | Some i \<Rightarrow> Some (kind i))"

definition isElement :: "dom list \<Rightarrow> nat \<Rightarrow> bool" where
  "isElement F r = (kindOf F r = Some ElementNode)"

definition canHaveChildren :: "dom list \<Rightarrow> nat \<Rightarrow> bool" where
  "canHaveChildren F r =
     (kindOf F r = Some ElementNode \<or> kindOf F r = Some DocumentNode \<or> kindOf F r = Some FragmentNode)"

text \<open>
  The window of a node; a node that the forest does not hold is taken for one of the
  iframe.
\<close>

definition realmOf :: "dom list \<Rightarrow> nat \<Rightarrow> realm" where
  "realmOf F r = (case nodeInfo F r of None \<Rightarrow> IframeWindow | Some i \<Rightarrow> realm i)"

text \<open>Take the node \<open>c\<close> out of the tree: it becomes the root of a detached tree.\<close>

definition detach :: "nat \<Rightarrow> dom list \<Rightarrow> dom list" where
  "detach c F = (case subtree F c of None \<Rightarrow> F | Some t \<Rightarrow> remove_from c F @ [t])"

text \<open>
  Put the node \<open>c\<close> (with its subtree) under \<open>p\<close>, in front of the child \<open>refChild\<close> or at
  the end; a fragment gives its children instead and stays behind empty.
\<close>

fun splice_before :: "nat option \<Rightarrow> dom list \<Rightarrow> dom list \<Rightarrow> dom list" where
  "splice_before None new cs = cs @ new"
| "splice_before (Some b) new [] = new"
| "splice_before (Some b) new (c # cs) =
     (if dref c = b then new @ c # cs else c # splice_before (Some b) new cs)"

definition place :: "nat \<Rightarrow> nat \<Rightarrow> nat option \<Rightarrow> dom list \<Rightarrow> dom list" where
  "place p c refChild F =
     (case subtree F c of
        None \<Rightarrow> F
      | Some t \<Rightarrow>
          (if kind (info t) = FragmentNode then
             map_at p (\<lambda>pt. set_kids (splice_before refChild (kids t) (kids pt)) pt)
               (map_at c (set_kids []) F)
           else
             map_at p (\<lambda>pt. set_kids (splice_before refChild [t] (kids pt)) pt)
               (remove_from c F)))"

text \<open>
  What a parent may hold. Text goes under elements and fragments only, a doctype under
  a document only, a document under nothing. A document takes an element (or a
  fragment with one element and no text) when it has no element yet and the place is
  not in front of a doctype, and a doctype when it has none yet and the place is not
  behind an element.
\<close>

definition isText :: "nodeKind \<Rightarrow> bool" where
  "isText k = (k = TextNode \<or> k = CDATANode)"

definition kindsOf :: "dom list \<Rightarrow> nodeKind list" where
  "kindsOf ts = map (\<lambda>t. kind (info t)) ts"

definition documentRejects :: "dom list \<Rightarrow> nat \<Rightarrow> dom \<Rightarrow> nat option \<Rightarrow> bool" where
  "documentRejects F p t refChild =
     (let hasElement = (ElementNode \<in> set (kindsOf (childTrees F p)));
          hasDoctype = (DoctypeNode \<in> set (kindsOf (childTrees F p)));
          refIsDoctype = (case refChild of None \<Rightarrow> False | Some b \<Rightarrow> kindOf F b = Some DoctypeNode);
          doctypeFollows = (case refChild of None \<Rightarrow> False
                            | Some b \<Rightarrow> list_ex (\<lambda>x. kindOf F x = Some DoctypeNode) (nextSiblings F b));
          elementPrecedes = (case refChild of None \<Rightarrow> False
                             | Some b \<Rightarrow> (case lookup F b of None \<Rightarrow> False
                                 | Some (q, pre, u, post) \<Rightarrow> ElementNode \<in> set (kindsOf pre)));
          elements = length (filter (\<lambda>k. k = ElementNode) (kindsOf (kids t)))
      in case kind (info t) of
           FragmentNode \<Rightarrow> 1 < elements \<or> list_ex isText (kindsOf (kids t))
                             \<or> (elements = 1 \<and> (hasElement \<or> refIsDoctype \<or> doctypeFollows))
         | ElementNode \<Rightarrow> hasElement \<or> refIsDoctype \<or> doctypeFollows
         | DoctypeNode \<Rightarrow> hasDoctype \<or> elementPrecedes \<or> (refChild = None \<and> hasElement)
         | _ \<Rightarrow> False)"

definition parentRejects :: "dom list \<Rightarrow> nat \<Rightarrow> nat \<Rightarrow> nat option \<Rightarrow> bool" where
  "parentRejects F p c refChild =
     (case subtree F c of
        None \<Rightarrow> False
      | Some t \<Rightarrow>
          kind (info t) = DocumentNode
          \<or> (isText (kind (info t)) \<and> kindOf F p = Some DocumentNode)
          \<or> (kind (info t) = DoctypeNode \<and> kindOf F p \<noteq> Some DocumentNode)
          \<or> (kindOf F p = Some DocumentNode \<and> documentRejects F p t refChild))"

definition insertBefore :: "nat \<Rightarrow> nat \<Rightarrow> nat option \<Rightarrow> dom list \<Rightarrow> exn + dom list" where
  "insertBefore p c refChild F =
     (if \<not> canHaveChildren F p \<or> contains F c p
      then Inl (DOMException (realmOf F p) ''HierarchyRequestError'')
      else if (case refChild of None \<Rightarrow> False | Some b \<Rightarrow> b \<notin> set (childNodes F p))
      then Inl (DOMException (realmOf F p) ''NotFoundError'')
      else if parentRejects F p c refChild
      then Inl (DOMException (realmOf F p) ''HierarchyRequestError'')
      else Inr (place p c refChild F))"

definition appendChild :: "nat \<Rightarrow> nat \<Rightarrow> dom list \<Rightarrow> exn + dom list" where
  "appendChild p c F = insertBefore p c None F"

definition removeChild :: "nat \<Rightarrow> nat \<Rightarrow> dom list \<Rightarrow> exn + dom list" where
  "removeChild p c F =
     (if c \<in> set (childNodes F p) then Inr (detach c F)
      else Inl (DOMException (realmOf F p) ''NotFoundError''))"

text \<open>\<^verbatim>\<open>node.textContent\<close>: the text of the node, or of the text nodes below it.\<close>

fun textContent_of :: "dom \<Rightarrow> string" where
  "textContent_of (DNode i cs) =
     (if kind i = TextNode \<or> kind i = CDATANode \<or> kind i = CommentNode then data i
      else concat (map textContent_of (filter (\<lambda>c. kind (info c) \<noteq> CommentNode) cs)))"

fun hasTag_below :: "string \<Rightarrow> dom \<Rightarrow> bool" where
  "hasTag_below t (DNode i cs) =
     list_ex (\<lambda>c. (kind (info c) = ElementNode \<and> tag (info c) = t) \<or> hasTag_below t c) cs"

section \<open>The replayer (replay/index.ts)\<close>

text \<open>
  What the replayer writes to the console (\<^verbatim>\<open>warn\<close> and \<^verbatim>\<open>debug\<close> print only when the
  configuration asks for it), the calls it makes to collaborators that are outside the
  embedding (sub-documents, dialogs, canvas styles, the tree index), and the record of
  the mutations whose callback has started, in order.
\<close>

datatype diagnostic =
    NodeNotFound int
  | CouldNotRemoveChild nat nat
  | ResolveTimeout
  | DropResolveTree int
  | ReplayerDestroyed
  | AttributeError exn
  | ExceptionInMutation exn

datatype external =
    AttachDocumentToIframe int nat
  | InsertStyleRules nat
  | TreeIndexCanvasAttribute int
  | ApplyCanvasDimensionStyles nat string string
  | TreeIndexDialog int
  | ApplyDialogToTopLevel nat
  | RemoveDialogFromTopLevel nat

datatype phase = Removes | Adds | Texts | Attributes

datatype virtualStyleRule = Snapshot "string list"

type_synonym missingNodeMap = "(int \<times> nat \<times> addedNodeMutation) list"

text \<open>
  The state of a \<^verbatim>\<open>Replayer\<close> that mutation application reads and writes. \<open>forest\<close> holds
  every node object; \<open>r_map\<close> is \<^verbatim>\<open>mirror.map\<close> and \<open>r_atlas\<close> the \<^verbatim>\<open>__sn_atlas\<close> property of
  the nodes. A \<^verbatim>\<open>Map\<close> is an association list in insertion order. \<open>queue\<close>,
  \<open>legacy_missingNodeMap\<close> and \<open>notVirtualStyles\<close> are the locals \<^verbatim>\<open>queue\<close>,
  \<^verbatim>\<open>legacy_missingNodeMap\<close> and \<^verbatim>\<open>notVirtualStylesBecauseOfSiblingIframe\<close> of
  \<^verbatim>\<open>applyMutation\<close>; \<open>next_addr\<close> is the address of the next object the host creates.
\<close>

record replayer =
  forest :: "dom list"
  contentDocument :: "nat option"
  r_map :: "(int \<times> nat) list"
  r_atlas :: "(nat \<times> serializedNode) list"
  fragmentParentMap :: "(nat \<times> nat) list"
  elementStateMap :: "(nat \<times> int \<times> int) list"
  virtualStyleRulesMap :: "(nat \<times> virtualStyleRule list) list"
  legacy_missingNodeRetryMap :: missingNodeMap
  newDocumentQueue :: "addedNodeMutation list"
  showWarning :: bool
  showDebug :: bool
  console :: "diagnostic list"
  external :: "external list"
  applied :: "(phase \<times> int) list"
  next_addr :: nat
  queue :: "addedNodeMutation list"
  legacy_missingNodeMap :: missingNodeMap
  notVirtualStyles :: "int list"

definition warn :: "diagnostic \<Rightarrow> replayer \<Rightarrow> replayer" where
  "warn m st = (if \<not> showWarning st then st else st\<lparr>console := console st @ [m]\<rparr>)"

definition debug :: "diagnostic \<Rightarrow> replayer \<Rightarrow> replayer" where
  "debug m st = (if \<not> showDebug st then st else st\<lparr>console := console st @ [m]\<rparr>)"

text \<open>
  \<^verbatim>\<open>warnNodeNotFound\<close> words its warning after the tree index (previously removed, or
  not found); the tree index is outside the embedding, so both wordings are the one
  diagnostic \<open>NodeNotFound\<close>.
\<close>

definition warnNodeNotFound :: "mutationData \<Rightarrow> int \<Rightarrow> replayer \<Rightarrow> replayer" where
  "warnNodeNotFound d i st = warn (NodeNotFound i) st"

definition call :: "external \<Rightarrow> replayer \<Rightarrow> replayer" where
  "call c st = st\<lparr>external := external st @ [c]\<rparr>"

definition started :: "phase \<Rightarrow> int \<Rightarrow> replayer \<Rightarrow> replayer" where
  "started ph i st = st\<lparr>applied := applied st @ [(ph, i)]\<rparr>"

text \<open>
  Modelled from the spec: the identity map of the replayer (\<^verbatim>\<open>Mirror\<close>, created in utils,
  not part of the sources): \<^verbatim>\<open>getNode(id)\<close> is the node registered under the id or
  \<^verbatim>\<open>null\<close>, \<^verbatim>\<open>getId(node)\<close> the id of the node or \<open>-1\<close>, \<^verbatim>\<open>removeNodeFromMap(node)\<close>
  unregisters the ids of the node and of its descendants.
\<close>

definition getNode :: "replayer \<Rightarrow> int \<Rightarrow> nat option" where
  "getNode st i = map_of (r_map st) i"

definition mirror_getId :: "replayer \<Rightarrow> nat \<Rightarrow> int" where
  "mirror_getId st n = (case map_of (r_atlas st) n of None \<Rightarrow> - 1 | Some sn \<Rightarrow> sn_id sn)"

definition mirror_unregister :: "nat \<Rightarrow> replayer \<Rightarrow> replayer" where
  "mirror_unregister n st =
     (case map_of (r_atlas st) n of
        None \<Rightarrow> st
      | Some sn \<Rightarrow> st\<lparr>r_map := AList.delete (sn_id sn) (r_map st)\<rparr>)"

definition mirror_removeNodeFromMap :: "nat \<Rightarrow> replayer \<Rightarrow> replayer" where
  "mirror_removeNodeFromMap n st = fold mirror_unregister (subrefs (forest st) n) st"

text \<open>JavaScript truthiness of an id that may be \<^verbatim>\<open>null\<close> or absent.\<close>

definition truthy :: "int option \<Rightarrow> bool" where
  "truthy x = (case x of None \<Rightarrow> False | Some n \<Rightarrow> n \<noteq> 0)"

definition getNode_if :: "replayer \<Rightarrow> int option \<Rightarrow> nat option" where
  "getNode_if st x = (case x of None \<Rightarrow> None | Some n \<Rightarrow> (if n = 0 then None else getNode st n))"

text \<open>
  Modelled from the spec: \<^verbatim>\<open>isIframeINode\<close> of utils (not part of the sources): a node
  whose serialized form is an \<^verbatim>\<open>iframe\<close> element.
\<close>

definition isIframeINode :: "replayer \<Rightarrow> nat \<Rightarrow> bool" where
  "isIframeINode st n =
     (case map_of (r_atlas st) n of
        None \<Rightarrow> False
      | Some sn \<Rightarrow> sn_type sn = Element \<and> sn_tagName sn = ''iframe'')"

subsection \<open>Removes\<close>

text \<open>
  \<^verbatim>\<open>error instanceof DOMException\<close>: the name \<^verbatim>\<open>DOMException\<close> in replay/index.ts is the
  class of the window that the replayer runs in, so the test holds for the exceptions
  of that window only.
\<close>

definition instanceof_DOMException :: "exn \<Rightarrow> bool" where
  "instanceof_DOMException error =
     (case error of DOMException w m \<Rightarrow> w = TopWindow | TypeError m \<Rightarrow> False)"

text \<open>
  The \<^verbatim>\<open>try\<close> block around \<^verbatim>\<open>parent.removeChild(target)\<close>: an error that passes the
  test is reported and swallowed, any other error is thrown again.
\<close>

definition tryRemoveChild :: "nat \<Rightarrow> nat \<Rightarrow> replayer \<Rightarrow> exn option \<times> replayer" where
  "tryRemoveChild parent target st =
     (case removeChild parent target (forest st) of
        Inr F \<Rightarrow> (None, st\<lparr>forest := F\<rparr>)
      | Inl error \<Rightarrow>
          (if instanceof_DOMException error
           then (None, warn (CouldNotRemoveChild parent target) st)
           else (Some error, st)))"

definition applyRemove :: "mutationData \<Rightarrow> removedNodeMutation \<Rightarrow> replayer \<Rightarrow> exn option \<times> replayer" where
  "applyRemove d mutation st0 =
     (let st = started Removes (r_id mutation) st0 in
      case getNode st (r_id mutation) of
        None \<Rightarrow>
          (if List.find (\<lambda>r. r_id r = r_parentId mutation) (removes d) \<noteq> None then (None, st)
           else (None, warnNodeNotFound d (r_id mutation) st))
      | Some target \<Rightarrow>
          (let st1 = st\<lparr>virtualStyleRulesMap := AList.delete target (virtualStyleRulesMap st)\<rparr> in
           case getNode st1 (r_parentId mutation) of
             None \<Rightarrow> (None, warnNodeNotFound d (r_parentId mutation) st1)
           | Some parent \<Rightarrow>
               (let st2 = mirror_removeNodeFromMap target st1;
                    realParent = (if map_of (r_atlas st2) parent \<noteq> None
                                  then map_of (fragmentParentMap st2) parent else None);
                    redirected = (case realParent of None \<Rightarrow> False
                                  | Some rp \<Rightarrow> contains (forest st2) rp target);
                    parent1 = (case realParent of None \<Rightarrow> parent
                               | Some rp \<Rightarrow> if redirected then rp else parent);
                    realTarget = (if redirected then None else map_of (fragmentParentMap st2) target);
                    target1 = (case realTarget of None \<Rightarrow> target | Some rt \<Rightarrow> rt);
                    st3 = (case realTarget of None \<Rightarrow> st2
                           | Some rt \<Rightarrow> st2\<lparr>fragmentParentMap := AList.delete target (fragmentParentMap st2)\<rparr>)
                in tryRemoveChild parent1 target1 st3)))"

subsection \<open>Virtual parents\<close>

text \<open>
  Modelled from the spec: \<^verbatim>\<open>storeCSSRules\<close> and \<^verbatim>\<open>applyVirtualStyleRulesToNode\<close> of
  virtual-styles (not part of the sources): the rules of a style element are journaled
  as a snapshot, and a journaled snapshot replaces the rules of the element's sheet.
\<close>

definition storeCSSRules :: "ninfo \<Rightarrow> replayer \<Rightarrow> replayer" where
  "storeCSSRules i st =
     st\<lparr>virtualStyleRulesMap := AList.update (addr i) [Snapshot (cssRules i)] (virtualStyleRulesMap st)\<rparr>"

fun applyVirtualStyleRule :: "virtualStyleRule \<Rightarrow> ninfo \<Rightarrow> ninfo" where
  "applyVirtualStyleRule (Snapshot cssTexts) i = i\<lparr>cssRules := cssTexts\<rparr>"

definition applyVirtualStyleRulesToNode :: "virtualStyleRule list \<Rightarrow> nat \<Rightarrow> dom list \<Rightarrow> dom list" where
  "applyVirtualStyleRulesToNode rules n F =
     map_at n (set_info (\<lambda>i. fold applyVirtualStyleRule rules i)) F"

fun storeState_sub :: "dom \<Rightarrow> replayer \<Rightarrow> replayer" where
  "storeState_sub (DNode i cs) st =
     (if kind i \<noteq> ElementNode then st
      else (let st1 = (if fst (scroll i) \<noteq> 0 \<or> snd (scroll i) \<noteq> 0
                       then st\<lparr>elementStateMap := AList.update (addr i) (scroll i) (elementStateMap st)\<rparr>
                       else st);
                st2 = (if tag i = ''style'' then storeCSSRules i st1 else st1)
            in fold storeState_sub (filter (\<lambda>c. kind (info c) = ElementNode) cs) st2))"

definition storeState :: "nat \<Rightarrow> replayer \<Rightarrow> replayer" where
  "storeState parent st =
     (case subtree (forest st) parent of None \<Rightarrow> st | Some t \<Rightarrow> storeState_sub t st)"

text \<open>
  \<^verbatim>\<open>restoreState\<close> walks the elements below the parent; every element with a stored
  state gets its scroll offsets back and loses its entry.
\<close>

fun restoreState_sub :: "(nat \<times> int \<times> int) list \<Rightarrow> dom \<Rightarrow> dom" where
  "restoreState_sub m (DNode i cs) =
     (if kind i \<noteq> ElementNode then DNode i cs
      else DNode (case map_of m (addr i) of None \<Rightarrow> i | Some s \<Rightarrow> i\<lparr>scroll := s\<rparr>)
             (map (\<lambda>c. if kind (info c) = ElementNode then restoreState_sub m c else c) cs))"

fun elements_of :: "dom \<Rightarrow> nat list" where
  "elements_of (DNode i cs) =
     (if kind i \<noteq> ElementNode then []
      else addr i # concat (map elements_of cs))"

definition restoreState :: "nat \<Rightarrow> replayer \<Rightarrow> replayer" where
  "restoreState parent st =
     (case subtree (forest st) parent of
        None \<Rightarrow> st
      | Some t \<Rightarrow>
          st\<lparr>forest := map_at parent (restoreState_sub (elementStateMap st)) (forest st),
             elementStateMap := filter (\<lambda>(k, v). k \<notin> set (elements_of t)) (elementStateMap st)\<rparr>)"

text \<open>
  A node object fresh from \<^verbatim>\<open>createDocumentFragment\<close>, \<^verbatim>\<open>createElement\<close> and the like, of
  the window \<open>w\<close> whose document is asked for it.
\<close>

definition blank :: "nat \<Rightarrow> nodeKind \<Rightarrow> realm \<Rightarrow> ninfo" where
  "blank a k w = \<lparr>addr = a, kind = k, realm = w, tag = [], attrs = [], styles = [], data = [],
     formValue = [], scroll = (0, 0), cssRules = [], blockClass = False, slimExcluded = False\<rparr>"

text \<open>
  The branch of \<^verbatim>\<open>appendNode\<close> that creates a virtual parent: a fresh fragment takes the
  parent's place in the identity map, the state below the parent is stored, and the
  parent's children move into the fragment. The fragment comes from the global
  \<^verbatim>\<open>document\<close>, the document of the replayer's own window.
\<close>

definition virtualize :: "int \<Rightarrow> nat \<Rightarrow> replayer \<Rightarrow> nat \<times> replayer" where
  "virtualize parentId parent st =
     (let virtualParent = next_addr st;
          st1 = st\<lparr>forest := forest st @ [DNode (blank virtualParent FragmentNode TopWindow) []],
                   next_addr := Suc virtualParent,
                   r_map := AList.update parentId virtualParent (r_map st),
                   fragmentParentMap := AList.update virtualParent parent (fragmentParentMap st)\<rparr>;
          st2 = storeState parent st1;
          st3 = st2\<lparr>forest := map_at virtualParent (set_kids (childTrees (forest st2) parent))
                                (map_at parent (set_kids []) (forest st2))\<rparr>
      in (virtualParent, st3))"

text \<open>
  \<^verbatim>\<open>restoreRealParent\<close>: the real parent is registered again, a textarea takes the
  fragment's text as its value, the fragment's children go back under the parent, and
  the stored state is restored.
\<close>

definition restoreRealParent :: "nat \<Rightarrow> nat \<Rightarrow> replayer \<Rightarrow> exn option \<times> replayer" where
  "restoreRealParent frag parent st =
     (case map_of (r_atlas st) parent of
        None \<Rightarrow> (Some (TypeError ''__sn_atlas''), st)
      | Some sn \<Rightarrow>
          (let st1 = st\<lparr>r_map := AList.update (sn_id sn) parent (r_map st)\<rparr>;
               text = (case subtree (forest st1) frag of None \<Rightarrow> [] | Some t \<Rightarrow> textContent_of t);
               st2 = (if sn_type sn = Element \<and> sn_tagName sn = ''textarea'' \<and> text \<noteq> []
                      then st1\<lparr>forest := map_at parent (set_info (\<lambda>i. i\<lparr>formValue := text\<rparr>)) (forest st1)\<rparr>
                      else st1)
           in case appendChild parent frag (forest st2) of
                Inl e \<Rightarrow> (Some e, st2)
              | Inr F \<Rightarrow> (None, restoreState parent (st2\<lparr>forest := F\<rparr>))))"

definition restoreNodeSheet :: "nat \<Rightarrow> replayer \<Rightarrow> replayer" where
  "restoreNodeSheet n st =
     (if \<not> (case nodeInfo (forest st) n of None \<Rightarrow> False
             | Some i \<Rightarrow> kind i = ElementNode \<and> tag i = ''style'') then st
      else (case map_of (virtualStyleRulesMap st) n of
              None \<Rightarrow> st
            | Some storedRules \<Rightarrow>
                st\<lparr>forest := applyVirtualStyleRulesToNode storedRules n (forest st)\<rparr>))"

text \<open>Running a callback over a list, as \<^verbatim>\<open>forEach\<close> does, until one throws.\<close>

fun forEach :: "('a \<Rightarrow> replayer \<Rightarrow> exn option \<times> replayer) \<Rightarrow> 'a list \<Rightarrow> replayer \<Rightarrow> exn option \<times> replayer" where
  "forEach f [] st = (None, st)"
| "forEach f (x # xs) st =
     (case f x st of (Some e, st1) \<Rightarrow> (Some e, st1) | (None, st1) \<Rightarrow> forEach f xs st1)"

text \<open>
  The handler of \<^verbatim>\<open>ReplayerEvents.Flush\<close>, without the scroll, input, dialog and canvas
  records of the tree index (that index is not part of the sources).
\<close>

definition flush :: "replayer \<Rightarrow> exn option \<times> replayer" where
  "flush st =
     (case forEach (\<lambda>(frag, parent). restoreRealParent frag parent) (fragmentParentMap st) st of
        (Some e, st1) \<Rightarrow> (Some e, st1)
      | (None, st1) \<Rightarrow>
          (let st2 = fold restoreNodeSheet (map fst (virtualStyleRulesMap st1)) st1
           in (None, st2\<lparr>fragmentParentMap := [], elementStateMap := [], virtualStyleRulesMap := []\<rparr>)))"

subsection \<open>Adds\<close>

text \<open>
  Modelled from the spec: \<^verbatim>\<open>buildNodeWithSN\<close> of rrweb-snapshot (not part of the
  sources), called with \<^verbatim>\<open>skipChild\<close>: a new node object is constructed from the
  serialized form, without children, and registered in the identity map under the
  serialized id. The object is created by the document passed as \<^verbatim>\<open>doc\<close>, which is the
  iframe's document (or a document below it).
\<close>

definition kindOfType :: "NodeType \<Rightarrow> nodeKind" where
  "kindOfType t =
     (case t of Document \<Rightarrow> DocumentNode | DocumentType \<Rightarrow> DoctypeNode | Element \<Rightarrow> ElementNode
      | Text \<Rightarrow> TextNode | CDATA \<Rightarrow> CDATANode | Comment \<Rightarrow> CommentNode)"

definition buildNodeWithSN :: "serializedNode \<Rightarrow> replayer \<Rightarrow> nat \<times> replayer" where
  "buildNodeWithSN sn st =
     (let target = next_addr st;
          i = (blank target (kindOfType (sn_type sn)) IframeWindow)
                \<lparr>tag := sn_tagName sn, attrs := sn_attributes sn, data := sn_textContent sn\<rparr>
      in (target,
          st\<lparr>forest := forest st @ [DNode i []],
             next_addr := Suc target,
             r_atlas := AList.update target sn (r_atlas st),
             r_map := AList.update (sn_id sn) target (r_map st)\<rparr>))"

definition nextNotInDOM :: "replayer \<Rightarrow> addedNodeMutation \<Rightarrow> bool" where
  "nextNotInDOM st mutation =
     (case a_nextId mutation of
        None \<Rightarrow> False
      | Some n \<Rightarrow> n \<noteq> - 1 \<and> getNode_if st (Some n) = None)"

text \<open>
  \<^verbatim>\<open>legacy_resolveMissingNode\<close>. Every recursive call follows the deletion of the entry
  it continues with, so the depth of the recursion is bounded by the number of entries
  of the map: \<open>depth\<close> is that bound, and \<open>appendNode\<close> passes the size of the map.
\<close>

definition forget_missing :: "int \<Rightarrow> replayer \<Rightarrow> replayer" where
  "forget_missing i st =
     st\<lparr>legacy_missingNodeMap := AList.delete i (legacy_missingNodeMap st),
        legacy_missingNodeRetryMap := AList.delete i (legacy_missingNodeRetryMap st)\<rparr>"

definition lookup_missing :: "replayer \<Rightarrow> int option \<Rightarrow> (nat \<times> addedNodeMutation) option" where
  "lookup_missing st x =
     (case x of None \<Rightarrow> None
      | Some n \<Rightarrow> (if n = 0 then None else map_of (legacy_missingNodeMap st) n))"

definition legacy_insert ::
  "(replayer \<Rightarrow> exn option \<times> replayer) \<Rightarrow> nat \<Rightarrow> nat \<Rightarrow> nat option \<Rightarrow> addedNodeMutation
     \<Rightarrow> replayer \<Rightarrow> exn option \<times> replayer" where
  "legacy_insert continue parent node refChild mutation st =
     (case insertBefore parent node refChild (forest st) of
        Inl e \<Rightarrow> (Some e, st)
      | Inr F \<Rightarrow>
          (let st1 = forget_missing (sn_id (a_node mutation)) (st\<lparr>forest := F\<rparr>)
           in if truthy (a_previousId mutation) \<or> truthy (a_nextId mutation)
              then continue st1 else (None, st1)))"

definition legacy_resolve_body ::
  "(nat \<Rightarrow> nat \<Rightarrow> addedNodeMutation \<Rightarrow> replayer \<Rightarrow> exn option \<times> replayer)
     \<Rightarrow> nat \<Rightarrow> nat \<Rightarrow> addedNodeMutation \<Rightarrow> replayer \<Rightarrow> exn option \<times> replayer" where
  "legacy_resolve_body recurse parent target targetMutation st =
     (let previousInMap = lookup_missing st (a_previousId targetMutation);
          nextInMap = lookup_missing st (a_nextId targetMutation);
          r1 = (case previousInMap of
                  None \<Rightarrow> (None, st)
                | Some (node, mutation) \<Rightarrow>
                    legacy_insert (recurse parent node mutation) parent node (Some target) mutation st)
      in case fst r1 of
           Some e \<Rightarrow> r1
         | None \<Rightarrow>
             (case nextInMap of
                None \<Rightarrow> r1
              | Some (node, mutation) \<Rightarrow>
                  legacy_insert (recurse parent node mutation) parent node
                    (nextSibling (forest (snd r1)) target) mutation (snd r1)))"

primrec legacy_resolveMissingNode ::
  "nat \<Rightarrow> nat \<Rightarrow> nat \<Rightarrow> addedNodeMutation \<Rightarrow> replayer \<Rightarrow> exn option \<times> replayer" where
  "legacy_resolveMissingNode 0 = (\<lambda>parent target targetMutation st. (None, st))"
| "legacy_resolveMissingNode (Suc depth) = legacy_resolve_body (legacy_resolveMissingNode depth)"

text \<open>The textarea branch: stray text children are removed before a text is appended.\<close>

definition clearTextChildren :: "nat \<Rightarrow> replayer \<Rightarrow> replayer" where
  "clearTextChildren parent st =
     fold (\<lambda>c s. if kindOf (forest s) c = Some TextNode then s\<lparr>forest := detach c (forest s)\<rparr> else s)
       (childNodes (forest st) parent) st"

text \<open>The three ways \<^verbatim>\<open>appendNode\<close> attaches the node it has built.\<close>

definition attach :: "nat option \<Rightarrow> nat option \<Rightarrow> nat \<Rightarrow> nat \<Rightarrow> nat option \<Rightarrow> dom list \<Rightarrow> exn + dom list" where
  "attach previous next parent target targetDoc F =
     (let afterPrevious = (case previous of None \<Rightarrow> None | Some p \<Rightarrow> nextSibling F p)
      in if afterPrevious \<noteq> None then insertBefore parent target afterPrevious F
         else if (case next of None \<Rightarrow> False | Some n \<Rightarrow> parentNode F n \<noteq> None) then
           (if (case next of None \<Rightarrow> False | Some n \<Rightarrow> contains F parent n)
            then insertBefore parent target next F
            else insertBefore parent target None F)
         else
           (let F1 = (if Some parent = targetDoc
                      then fold detach (childNodes F parent) F else F)
            in appendChild parent target F1))"

text \<open>
  \<^verbatim>\<open>appendNode\<close>, in the order of the source: the choice of the parent (the real one or
  a new virtual one), the checks that requeue or drop the add, the construction of the
  node, its attachment, and what follows the attachment.
\<close>

definition chooseParent :: "bool \<Rightarrow> addedNodeMutation \<Rightarrow> nat \<Rightarrow> replayer \<Rightarrow> nat \<times> replayer" where
  "chooseParent useVirtualParent mutation parent st =
     (let parentInDocument =
            (case contentDocument st of None \<Rightarrow> False | Some doc \<Rightarrow> contains (forest st) doc parent);
          parentHasIframeChild =
            (case subtree (forest st) parent of None \<Rightarrow> False
             | Some t \<Rightarrow> canHaveChildren (forest st) parent \<and> hasTag_below ''iframe'' t)
      in if \<not> useVirtualParent then (parent, st)
         else if parentInDocument \<and> \<not> parentHasIframeChild \<and> \<not> isIframeINode st parent
                 \<and> a_parentId mutation \<notin> set (notVirtualStyles st)
         then virtualize (a_parentId mutation) parent st
         else if parentHasIframeChild \<and> sn_type (a_node mutation) = Element
                 \<and> sn_tagName (a_node mutation) = ''style''
         then (parent, st\<lparr>notVirtualStyles := List.insert (sn_id (a_node mutation)) (notVirtualStyles st)\<rparr>)
         else (parent, st))"

definition afterAttach :: "addedNodeMutation \<Rightarrow> nat \<Rightarrow> nat \<Rightarrow> replayer \<Rightarrow> exn option \<times> replayer" where
  "afterAttach mutation parent target st =
     (let st1 =
            (if isIframeINode st target then
               (let st' = (case List.find (\<lambda>m. a_parentId m = sn_id (a_node mutation))
                                    (newDocumentQueue st) of
                             None \<Rightarrow> st
                           | Some mq \<Rightarrow>
                               (call (AttachDocumentToIframe (sn_id (a_node mq)) target) st)
                                 \<lparr>newDocumentQueue := remove1 mq (newDocumentQueue st)\<rparr>)
                in if (case contentDocument st' of None \<Rightarrow> False
                       | Some doc \<Rightarrow> contains (forest st') doc target)
                   then call (InsertStyleRules target) st' else st')
             else st)
      in if truthy (a_previousId mutation) \<or> truthy (a_nextId mutation)
         then legacy_resolveMissingNode (length (legacy_missingNodeMap st1)) parent target mutation st1
         else (None, st1))"

definition buildAndAttach ::
  "addedNodeMutation \<Rightarrow> nat \<Rightarrow> nat option \<Rightarrow> nat option \<Rightarrow> nat option \<Rightarrow> replayer
     \<Rightarrow> exn option \<times> replayer" where
  "buildAndAttach mutation parent previous next targetDoc st =
     (let (target, st1) = buildNodeWithSN (a_node mutation) st in
      if a_previousId mutation = Some (- 1) \<or> a_nextId mutation = Some (- 1) then
        (None, st1\<lparr>legacy_missingNodeMap :=
                     AList.update (sn_id (a_node mutation)) (target, mutation)
                       (legacy_missingNodeMap st1)\<rparr>)
      else
        (let st2 = (if (case map_of (r_atlas st1) parent of None \<Rightarrow> False
                        | Some psn \<Rightarrow> sn_type psn = Element \<and> sn_tagName psn = ''textarea'')
                       \<and> sn_type (a_node mutation) = Text
                    then clearTextChildren parent st1 else st1)
         in case attach previous next parent target targetDoc (forest st2) of
              Inl e \<Rightarrow> (Some e, st2)
            | Inr F \<Rightarrow> afterAttach mutation parent target (st2\<lparr>forest := F\<rparr>)))"

definition appendNode :: "bool \<Rightarrow> addedNodeMutation \<Rightarrow> replayer \<Rightarrow> exn option \<times> replayer" where
  "appendNode useVirtualParent mutation st0 =
     (let st = started Adds (sn_id (a_node mutation)) st0 in
      if contentDocument st = None then (None, st\<lparr>console := console st @ [ReplayerDestroyed]\<rparr>)
      else
      case getNode st (a_parentId mutation) of
        None \<Rightarrow>
          (if sn_type (a_node mutation) = Document
           then (None, st\<lparr>newDocumentQueue := newDocumentQueue st @ [mutation]\<rparr>)
           else (None, st\<lparr>queue := queue st @ [mutation]\<rparr>))
      | Some parent0 \<Rightarrow>
          (let (parent, st1) = chooseParent useVirtualParent mutation parent0 st;
               previous = getNode_if st1 (a_previousId mutation);
               next = getNode_if st1 (a_nextId mutation)
           in if nextNotInDOM st1 mutation then (None, st1\<lparr>queue := queue st1 @ [mutation]\<rparr>)
              else if (case sn_rootId (a_node mutation) of None \<Rightarrow> False
                       | Some r \<Rightarrow> r \<noteq> 0 \<and> getNode st1 r = None) then (None, st1)
              else
              (let targetDoc = (if truthy (sn_rootId (a_node mutation))
                                then getNode_if st1 (sn_rootId (a_node mutation))
                                else contentDocument st1)
               in if isIframeINode st1 parent
                  then (None, call (AttachDocumentToIframe (sn_id (a_node mutation)) parent) st1)
                  else buildAndAttach mutation parent previous next targetDoc st1)))"

subsection \<open>The resolve-tree pass\<close>

text \<open>
  Modelled from the spec: \<^verbatim>\<open>queueToResolveTrees\<close> and \<^verbatim>\<open>iterateResolveTree\<close> of utils
  (not part of the sources): the requeued adds form a forest by their declared parent
  and next-sibling relations (an add goes in front of its next sibling when that is in
  the forest, else under its parent when that is in the forest, else it is a new root),
  and a tree is resolved parent first.
\<close>

datatype resolveTree = ResolveTree (rt_value: addedNodeMutation) (rt_children: "resolveTree list")

fun rt_ids :: "resolveTree \<Rightarrow> int list" where
  "rt_ids (ResolveTree m cs) = sn_id (a_node m) # concat (map rt_ids cs)"

fun rt_insert_before :: "int \<Rightarrow> addedNodeMutation \<Rightarrow> resolveTree list \<Rightarrow> resolveTree list" where
  "rt_insert_before n m [] = []"
| "rt_insert_before n m (ResolveTree v cs # ts) =
     (if sn_id (a_node v) = n then ResolveTree m [] # ResolveTree v cs # ts
      else ResolveTree v (rt_insert_before n m cs) # rt_insert_before n m ts)"

fun rt_add_child :: "int \<Rightarrow> addedNodeMutation \<Rightarrow> resolveTree list \<Rightarrow> resolveTree list" where
  "rt_add_child p m [] = []"
| "rt_add_child p m (ResolveTree v cs # ts) =
     (if sn_id (a_node v) = p then ResolveTree v (cs @ [ResolveTree m []]) # ts
      else ResolveTree v (rt_add_child p m cs) # rt_add_child p m ts)"

definition rt_put :: "addedNodeMutation \<Rightarrow> resolveTree list \<Rightarrow> resolveTree list" where
  "rt_put m ts =
     (let ids = concat (map rt_ids ts);
          other = (if a_parentId m \<in> set ids then rt_add_child (a_parentId m) m ts
                   else ts @ [ResolveTree m []])
      in case a_nextId m of
           None \<Rightarrow> other
         | Some n \<Rightarrow> (if n \<noteq> 0 \<and> n \<in> set ids then rt_insert_before n m ts else other))"

definition queueToResolveTrees :: "addedNodeMutation list \<Rightarrow> resolveTree list" where
  "queueToResolveTrees q = fold rt_put q []"

fun rt_order :: "resolveTree \<Rightarrow> addedNodeMutation list" where
  "rt_order (ResolveTree m cs) = m # concat (map rt_order (rev cs))"

definition iterateResolveTree ::
  "resolveTree \<Rightarrow> (addedNodeMutation \<Rightarrow> replayer \<Rightarrow> exn option \<times> replayer) \<Rightarrow> replayer
     \<Rightarrow> exn option \<times> replayer" where
  "iterateResolveTree tree cb st = forEach cb (rt_order tree) st"

definition resolveTreeStep :: "bool \<Rightarrow> resolveTree \<Rightarrow> replayer \<Rightarrow> exn option \<times> replayer" where
  "resolveTreeStep useVirtualParent tree st =
     (case getNode st (a_parentId (rt_value tree)) of
        None \<Rightarrow> (None, debug (DropResolveTree (sn_id (a_node (rt_value tree)))) st)
      | Some parent \<Rightarrow> iterateResolveTree tree (appendNode useVirtualParent) st)"

text \<open>
  The loop over the requeued adds ends when the queue stays empty or when more than
  500 ms have passed since it started: \<open>passes\<close> is the number of passes that start
  within that time.
\<close>

fun resolveQueue :: "nat \<Rightarrow> bool \<Rightarrow> replayer \<Rightarrow> exn option \<times> replayer" where
  "resolveQueue 0 useVirtualParent st =
     (if queue st = [] then (None, st) else (None, warn ResolveTimeout (st\<lparr>queue := []\<rparr>)))"
| "resolveQueue (Suc passes) useVirtualParent st =
     (if queue st = [] then (None, st)
      else (case forEach (resolveTreeStep useVirtualParent) (queueToResolveTrees (queue st))
                   (st\<lparr>queue := []\<rparr>) of
              (Some e, st1) \<Rightarrow> (Some e, st1)
            | (None, st1) \<Rightarrow> resolveQueue passes useVirtualParent st1))"

subsection \<open>Texts and attributes\<close>

text \<open>
  The host's \<^verbatim>\<open>textContent\<close> setter: a text, comment or CDATA node takes the value as
  its data, an element or fragment gets a single new text child (none for the empty
  string), a document or doctype ignores it.
\<close>

definition setTextContent :: "nat \<Rightarrow> string \<Rightarrow> replayer \<Rightarrow> replayer" where
  "setTextContent target v st =
     (case kindOf (forest st) target of
        None \<Rightarrow> st
      | Some k \<Rightarrow>
          (if k = TextNode \<or> k = CommentNode \<or> k = CDATANode then
             st\<lparr>forest := map_at target (set_info (\<lambda>i. i\<lparr>data := v\<rparr>)) (forest st)\<rparr>
           else if k = ElementNode \<or> k = FragmentNode then
             (let F1 = fold detach (childNodes (forest st) target) (forest st) in
              if v = [] then st\<lparr>forest := F1\<rparr>
              else st\<lparr>forest := map_at target
                                  (set_kids [DNode ((blank (next_addr st) TextNode (realmOf (forest st) target))
                                               \<lparr>data := v\<rparr>) []]) F1,
                      next_addr := Suc (next_addr st)\<rparr>)
           else st))"

definition realNode :: "replayer \<Rightarrow> nat \<Rightarrow> nat" where
  "realNode st target =
     (case map_of (fragmentParentMap st) target of None \<Rightarrow> target | Some real \<Rightarrow> real)"

definition applyText :: "mutationData \<Rightarrow> textMutation \<Rightarrow> replayer \<Rightarrow> exn option \<times> replayer" where
  "applyText d mutation st0 =
     (let st = started Texts (t_id mutation) st0 in
      case getNode st (t_id mutation) of
        None \<Rightarrow>
          (if List.find (\<lambda>r. r_id r = t_id mutation) (removes d) \<noteq> None then (None, st)
           else (None, warnNodeNotFound d (t_id mutation) st))
      | Some target \<Rightarrow>
          (None, setTextContent (realNode st target)
                   (case t_value mutation of None \<Rightarrow> [] | Some v \<Rightarrow> v) st))"

text \<open>
  The host's attribute and inline-style methods exist on elements only; \<^verbatim>\<open>setAttribute\<close>
  rejects a name that is empty or holds white space or one of \<^verbatim>\<open>/\<close>, \<^verbatim>\<open>>\<close>, \<^verbatim>\<open>=\<close>.
\<close>

definition validAttributeName :: "string \<Rightarrow> bool" where
  "validAttributeName n = (n \<noteq> [] \<and> list_all (\<lambda>c. c \<notin> set '' /=>'' \<and> c \<noteq> CHR 0x09 \<and> c \<noteq> CHR 0x0A
                                                  \<and> c \<noteq> CHR 0x0C \<and> c \<noteq> CHR 0x0D) n)"

definition setAttribute :: "nat \<Rightarrow> string \<Rightarrow> string \<Rightarrow> dom list \<Rightarrow> exn + dom list" where
  "setAttribute target n v F =
     (if \<not> isElement F target then Inl (TypeError ''setAttribute is not a function'')
      else if \<not> validAttributeName n then Inl (DOMException (realmOf F target) ''InvalidCharacterError'')
      else Inr (map_at target (set_info (\<lambda>i. i\<lparr>attrs := AList.update n v (attrs i)\<rparr>)) F))"

definition removeAttribute :: "nat \<Rightarrow> string \<Rightarrow> dom list \<Rightarrow> exn + dom list" where
  "removeAttribute target n F =
     (if \<not> isElement F target then Inl (TypeError ''removeAttribute is not a function'')
      else Inr (map_at target (set_info (\<lambda>i. i\<lparr>attrs := AList.delete n (attrs i)\<rparr>)) F))"

definition applyStyleValue :: "nat \<Rightarrow> string \<times> styleValue \<Rightarrow> replayer \<Rightarrow> exn option \<times> replayer" where
  "applyStyleValue target sv st =
     (if \<not> isElement (forest st) target then (Some (TypeError ''style is undefined''), st)
      else (None,
        st\<lparr>forest := map_at target (set_info (\<lambda>i. i\<lparr>styles :=
               (case snd sv of
                  StyleFalse \<Rightarrow> AList.delete (fst sv) (styles i)
                | StyleWithPriority v p \<Rightarrow> AList.update (fst sv) (v, p) (styles i)
                | StyleString v \<Rightarrow> AList.update (fst sv) (v, []) (styles i))\<rparr>)) (forest st)\<rparr>))"

definition hasTag :: "replayer \<Rightarrow> nat \<Rightarrow> string \<Rightarrow> bool" where
  "hasTag st n t =
     (case nodeInfo (forest st) n of None \<Rightarrow> False | Some i \<Rightarrow> kind i = ElementNode \<and> tag i = t)"

definition applyAttributeValue ::
  "bool \<Rightarrow> attributeMutation \<Rightarrow> nat \<Rightarrow> string \<times> attrValue \<Rightarrow> replayer \<Rightarrow> exn option \<times> replayer" where
  "applyAttributeValue useVirtualParent mutation target av st =
     (case snd av of
        AttrNull \<Rightarrow>
          (case removeAttribute target (fst av) (forest st) of
             Inl e \<Rightarrow> (Some e, st)
           | Inr F \<Rightarrow>
               (None, if fst av = ''open'' then call (RemoveDialogFromTopLevel target) (st\<lparr>forest := F\<rparr>)
                      else st\<lparr>forest := F\<rparr>))
      | AttrString v \<Rightarrow>
          (case setAttribute target (fst av) v (forest st) of
             Inl e \<Rightarrow> (None, warn (AttributeError e) st)
           | Inr F \<Rightarrow>
               (let st1 = st\<lparr>forest := F\<rparr>;
                    st2 = (if hasTag st1 target ''canvas'' then
                             (if useVirtualParent then call (TreeIndexCanvasAttribute (at_id mutation)) st1
                              else call (ApplyCanvasDimensionStyles target (fst av) v) st1)
                           else st1);
                    st3 = (if fst av = ''rr_open_mode'' \<and> hasTag st2 target ''dialog'' then
                             (if useVirtualParent then call (TreeIndexDialog (at_id mutation)) st2
                              else call (ApplyDialogToTopLevel target) st2)
                           else st2)
                in (None, st3)))
      | AttrStyle styleValues \<Rightarrow>
          (if fst av = ''style'' then forEach (applyStyleValue target) styleValues st
           else (None, st)))"

definition applyAttribute ::
  "bool \<Rightarrow> mutationData \<Rightarrow> attributeMutation \<Rightarrow> replayer \<Rightarrow> exn option \<times> replayer" where
  "applyAttribute useVirtualParent d mutation st0 =
     (let st = started Attributes (at_id mutation) st0 in
      case getNode st (at_id mutation) of
        None \<Rightarrow>
          (if List.find (\<lambda>r. r_id r = at_id mutation) (removes d) \<noteq> None then (None, st)
           else (None, warnNodeNotFound d (at_id mutation) st))
      | Some target \<Rightarrow>
          forEach (applyAttributeValue useVirtualParent mutation (realNode st target))
            (at_attributes mutation) st)"

subsection \<open>Applying a delta\<close>

definition then_do ::
  "exn option \<times> replayer \<Rightarrow> (replayer \<Rightarrow> exn option \<times> replayer) \<Rightarrow> exn option \<times> replayer" where
  "then_do r f = (case r of (Some e, st) \<Rightarrow> (Some e, st) | (None, st) \<Rightarrow> f st)"

definition mergeMissing :: "replayer \<Rightarrow> replayer" where
  "mergeMissing st =
     st\<lparr>legacy_missingNodeRetryMap :=
          fold (\<lambda>(k, v). AList.update k v) (legacy_missingNodeMap st) (legacy_missingNodeRetryMap st)\<rparr>"

definition applyMutation :: "nat \<Rightarrow> mutationData \<Rightarrow> bool \<Rightarrow> replayer \<Rightarrow> exn option \<times> replayer" where
  "applyMutation passes d useVirtualParent st =
     then_do (forEach (applyRemove d) (removes d) st) (\<lambda>st1.
     then_do (forEach (appendNode useVirtualParent) (adds d)
                (st1\<lparr>legacy_missingNodeMap := legacy_missingNodeRetryMap st1, queue := [],
                     notVirtualStyles := []\<rparr>)) (\<lambda>st2.
     then_do (resolveQueue passes useVirtualParent st2) (\<lambda>st3.
     then_do (forEach (applyText d) (texts d) (mergeMissing st3)) (\<lambda>st4.
     forEach (applyAttribute useVirtualParent d) (attributes d) st4))))"


section \<open>Sample documents, buffers and replayers\<close>

definition plain :: "nat \<Rightarrow> nodeKind \<Rightarrow> string \<Rightarrow> ninfo" where
  "plain a k t = \<lparr>addr = a, kind = k, realm = IframeWindow, tag = t, attrs = [], styles = [], data = [],
     formValue = [], scroll = (0, 0), cssRules = [], blockClass = False, slimExcluded = False\<rparr>"

definition sn_plain :: "int \<Rightarrow> NodeType \<Rightarrow> string \<Rightarrow> serializedNode" where
  "sn_plain i ty t = \<lparr>sn_id = i, sn_type = ty, sn_tagName = t, sn_attributes = [],
      sn_textContent = [], sn_rootId = None, sn_isShadow = False\<rparr>"

definition sample_buffer :: mutationBuffer where
  "sample_buffer = \<lparr>frozen = False, locked = False, b_texts = [], b_attributes = [], b_removes = [],
     mapRemoves = [], movedMap = [], addedSet = [], movedSet = [], droppedSet = [],
     mirror_map = [(1, 100), (2, 101), (3, 102), (4, 103), (5, 104)],
     sn_atlas = [(100, sn_plain 1 Document []), (101, sn_plain 2 Element ''html''),
                 (102, sn_plain 3 Element ''div''), (103, sn_plain 4 Element ''div''),
                 (104, sn_plain 5 Element ''p'')],
     next_id = 6, e_adds = [], addList = [], emitted = []\<rparr>"

definition page_moved :: "dom list" where
  "page_moved =
     [DNode (plain 100 DocumentNode []) [DNode (plain 101 ElementNode ''html'')
        [DNode (plain 102 ElementNode ''div'') [],
         DNode (plain 103 ElementNode ''div'') [DNode (plain 104 ElementNode ''p'') []]]]]"

text \<open>
  The page after the paragraph 104 has been taken out of the div 103 and put into a new
  span, which was added to the div 102 and removed again.
\<close>

definition page_taken :: "dom list" where
  "page_taken =
     [DNode (plain 100 DocumentNode []) [DNode (plain 101 ElementNode ''html'')
        [DNode (plain 102 ElementNode ''div'') [], DNode (plain 103 ElementNode ''div'') []]],
      DNode (plain 200 ElementNode ''span'') [DNode (plain 104 ElementNode ''p'') []]]"

definition page_detached :: "dom list" where
  "page_detached =
     [DNode (plain 100 DocumentNode []) [DNode (plain 101 ElementNode ''html'')
        [DNode (plain 102 ElementNode ''div'') [DNode (plain 104 ElementNode ''p'') []],
         DNode (plain 103 ElementNode ''div'') []]],
      DNode (plain 200 ElementNode ''span'') [DNode (plain 201 TextNode []) []]]"

definition page_pending :: "dom list" where
  "page_pending =
     [DNode (plain 100 DocumentNode []) [DNode (plain 101 ElementNode ''html'')
        [DNode (plain 102 ElementNode ''div'') [DNode (plain 104 ElementNode ''p'') []],
         DNode (plain 103 ElementNode ''div'')
           [DNode (plain 200 ElementNode ''span'') [DNode (plain 201 TextNode []) []],
            DNode (plain 202 ElementNode ''b'') []]]]]"

definition pending_state :: mutationBuffer where
  "pending_state =
     fold (addedStep page_pending 100) [201, 200, 202] (sample_buffer\<lparr>addedSet := [201, 200, 202]\<rparr>)"

definition relocated_buffer :: mutationBuffer where
  "relocated_buffer = fold (processMutation page_moved) (relocate 102 103 104) sample_buffer"

definition fresh_replayer :: "dom list \<Rightarrow> (int \<times> nat) list \<Rightarrow> (nat \<times> serializedNode) list \<Rightarrow> replayer" where
  "fresh_replayer F m a =
     \<lparr>forest = F, contentDocument = Some 100, r_map = m, r_atlas = a, fragmentParentMap = [],
      elementStateMap = [], virtualStyleRulesMap = [], legacy_missingNodeRetryMap = [],
      newDocumentQueue = [], showWarning = True, showDebug = False, console = [], external = [],
      applied = [], next_addr = 1000, queue = [], legacy_missingNodeMap = [], notVirtualStyles = []\<rparr>"

definition root_only :: replayer where
  "root_only = fresh_replayer [DNode (plain 100 DocumentNode []) []] [(1, 100)]
                 [(100, sn_plain 1 Document [])]"

definition add10 :: "int option \<Rightarrow> mutationData" where
  "add10 nx = \<lparr>texts = [], attributes = [], removes = [],
     adds = [\<lparr>a_parentId = 1, a_nextId = nx, a_previousId = None, a_node = sn_plain 10 Element ''div''\<rparr>]\<rparr>"

text \<open>
  A page with two spans under a div and an empty paragraph, and deltas against it: an
  attribute whose name the host rejects, an add whose previous sibling sits under
  another parent, mutations of ids that the page does not have, and one delta with all
  four kinds of mutation (its first add waits for the parent that the second add
  creates).
\<close>

definition two_spans :: replayer where
  "two_spans = fresh_replayer
      [DNode (plain 100 DocumentNode []) [DNode (plain 101 ElementNode ''html'')
         [DNode (plain 102 ElementNode ''div'')
            [DNode (plain 105 ElementNode ''span'') [], DNode (plain 106 ElementNode ''span'') []],
          DNode (plain 104 ElementNode ''p'') []]]]
      [(1, 100), (2, 101), (3, 102), (4, 104), (6, 105), (7, 106)]
      [(100, sn_plain 1 Document []), (101, sn_plain 2 Element ''html''),
       (102, sn_plain 3 Element ''div''), (104, sn_plain 4 Element ''p''),
       (105, sn_plain 6 Element ''span''), (106, sn_plain 7 Element ''span'')]"



definition orphan_delta :: mutationData where
  "orphan_delta = \<lparr>texts = [\<lparr>t_id = 50, t_value = Some ''x''\<rparr>],
     attributes = [\<lparr>at_id = 50, at_attributes = [(''class'', AttrString ''y'')]\<rparr>,
                   \<lparr>at_id = 51, at_attributes = []\<rparr>],
     removes = [\<lparr>r_parentId = 3, r_id = 50, r_isShadow = None\<rparr>,
                \<lparr>r_parentId = 50, r_id = 52, r_isShadow = None\<rparr>], adds = []\<rparr>"





text \<open>A textarea that holds one text node, and the delta that adds a second one.\<close>

definition page_textarea :: replayer where
  "page_textarea = fresh_replayer
      [DNode (plain 100 DocumentNode []) [DNode (plain 101 ElementNode ''html'')
         [DNode (plain 102 ElementNode ''textarea'')
            [DNode ((plain 103 TextNode [])\<lparr>data := ''old''\<rparr>) []]]]]
      [(1, 100), (2, 101), (3, 102), (4, 103)]
      [(100, sn_plain 1 Document []), (101, sn_plain 2 Element ''html''),
       (102, sn_plain 3 Element ''textarea''), (103, sn_plain 4 Text [])]"

definition add_text :: mutationData where
  "add_text = \<lparr>texts = [], attributes = [], removes = [],
     adds = [\<lparr>a_parentId = 3, a_nextId = None, a_previousId = None,
              a_node = (sn_plain 5 Text [])\<lparr>sn_textContent := ''new''\<rparr>\<rparr>]\<rparr>"

section \<open>Properties of the mutation buffer\<close>

definition kept :: "mutationBuffer \<Rightarrow> bool \<times> bool \<times> (nat \<times> string option) list \<times>
    (nat \<times> (string \<times> attrValue) list) list \<times> removedNodeMutation list \<times> (int \<times> int) list \<times>
    nat list \<times> nat list \<times> mutationData list" where
  "kept st = (frozen st, locked st, b_texts st, b_attributes st, b_removes st, movedMap st,
              addedSet st, movedSet st, emitted st)"

lemma kept_unregister: "kept (unregister n st) = kept st"
  by (simp add: unregister_def kept_def split: option.splits)

lemma kept_fold:
  assumes "\<And>x s. kept (f x s) = kept s"
  shows "kept (fold f xs st) = kept st"
  using assms by (induction xs arbitrary: st) simp_all

lemma kept_removeNodeFromMap: "kept (removeNodeFromMap F n st) = kept st"
  unfolding removeNodeFromMap_def by (rule kept_fold) (rule kept_unregister)

lemma kept_serializeNodeWithId: "kept (snd (serializeNodeWithId F n st)) = kept st"
  by (simp add: serializeNodeWithId_def kept_def Let_def split: option.splits)

lemma kept_pushAdd: "kept (pushAdd F doc n st) = kept st"
proof -
  obtain r st1 where s: "serializeNodeWithId F n st = (r, st1)"
    by (cases "serializeNodeWithId F n st")
  with kept_serializeNodeWithId [of F n st] have "kept st1 = kept st"
    by simp
  with s show ?thesis
    by (auto simp: pushAdd_def Let_def kept_def split: option.splits)
qed

lemma kept_movedStep: "kept (movedStep F doc n st) = kept st"
  by (simp add: movedStep_def kept_pushAdd)

lemma kept_addedStep: "kept (addedStep F doc n st) = kept st"
  by (simp add: addedStep_def kept_pushAdd) (simp add: kept_def)

lemma kept_addList_update: "kept (st\<lparr>addList := l\<rparr>) = kept st"
  by (simp add: kept_def)

lemma kept_resolveAddList: "kept (resolveAddList F doc c st) = kept st"
proof (induction F doc c st rule: resolveAddList.induct)
  case (1 F doc candidate st)
  show ?case
  proof (cases "addList st = []")
    case True
    then show ?thesis by (simp add: resolveAddList.simps)
  next
    case False
    show ?thesis
    proof (cases "pick F candidate st")
      case None
      with False show ?thesis
        by (simp add: resolveAddList.simps [of F doc candidate st] kept_addList_update)
    next
      case (Some n)
      with False "1.IH" [OF False Some] show ?thesis
        by (simp add: resolveAddList.simps [of F doc candidate st] kept_pushAdd kept_addList_update)
    qed
  qed
qed

lemma kept_emit_prepare: "kept (emit_prepare F doc st) = kept st"
proof -
  have a: "kept (st\<lparr>e_adds := [], addList := []\<rparr>) = kept st"
    by (simp add: kept_def)
  have b: "kept (s\<lparr>mapRemoves := []\<rparr>) = kept s" for s
    by (simp add: kept_def)
  show ?thesis
    unfolding emit_prepare_def Let_def
    by (simp add: kept_resolveAddList kept_fold [of "addedStep F doc", OF kept_addedStep]
        kept_fold [of "movedStep F doc", OF kept_movedStep] b
        kept_fold [of "removeNodeFromMap F", OF kept_removeNodeFromMap] a)
qed

text \<open>Fields that classification (genAdds, processRemoved) never touches.\<close>

definition frame :: "mutationBuffer \<Rightarrow> bool \<times> bool \<times> (nat \<times> string option) list \<times>
    (nat \<times> (string \<times> attrValue) list) list \<times> removedNodeMutation list \<times> nat list \<times>
    (int \<times> nat) list \<times> (nat \<times> serializedNode) list \<times>
    int \<times> addedNodeMutation list \<times> nat list \<times> mutationData list" where
  "frame st = (frozen st, locked st, b_texts st, b_attributes st, b_removes st, mapRemoves st,
               mirror_map st, sn_atlas st, next_id st, e_adds st, addList st, emitted st)"

lemma frame_genAdds_node: "frame (genAdds_node n t st) = frame st"
  by (simp add: genAdds_node_def frame_def Let_def split: option.splits)

lemma isINode_frame: "frame s = frame st \<Longrightarrow> isINode s n = isINode st n"
  by (simp add: frame_def isINode_def)

lemma isIgnored_frame: "frame s = frame st \<Longrightarrow> isIgnored s n = isIgnored st n"
  by (simp add: frame_def isIgnored_def)

lemma getId_frame: "frame s = frame st \<Longrightarrow> getId s n = getId st n"
  by (simp add: frame_def getId_def)

lemma frame_genAdds_sub: "frame (genAdds_sub F t st) = frame st"
proof (induction F t st rule: genAdds_sub.induct)
  case (1 F i cs st)
  have "frame (fold (genAdds_sub F) xs s) = frame s"
    if "set xs \<subseteq> set cs" and "\<not> (isINode st (addr i) \<and> isIgnored st (addr i))"
       and "\<not> isBlocked F (addr i)" for xs s
    using that
  proof (induction xs arbitrary: s)
    case Nil
    then show ?case by simp
  next
    case (Cons x xs)
    then show ?case
      using "1.IH" [of "genAdds_node (addr i) None st" x s] by simp
  qed
  then show ?case
    by (simp add: Let_def frame_genAdds_node)
qed

lemma frame_fold_genAdds_sub: "frame (fold (genAdds_sub F) ts st) = frame st"
  by (induction ts arbitrary: st) (simp_all add: frame_genAdds_sub)

lemma frame_genAdds: "frame (genAdds F n t st) = frame st"
  by (simp add: genAdds_def Let_def frame_fold_genAdds_sub frame_genAdds_node)

lemma fold_invariant:
  assumes "\<And>x s. x \<in> set xs \<Longrightarrow> Q s \<Longrightarrow> Q (f x s)" and "Q s"
  shows "Q (fold f xs s)"
  using assms by (induction xs arbitrary: s) simp_all

definition headed :: "nat \<Rightarrow> nat list \<Rightarrow> bool" where
  "headed n l = (case l of [] \<Rightarrow> False | x # xs \<Rightarrow> x = n \<and> n \<notin> set xs)"

lemma headed_set_add: "headed n l \<Longrightarrow> headed n (set_add m l)"
  by (cases l) (auto simp: headed_def set_add_def)

text \<open>What genAdds keeps about a node n that has an identity and leads the moved set.\<close>

definition moved_first :: "nat \<Rightarrow> mutationBuffer \<Rightarrow> mutationBuffer \<Rightarrow> bool" where
  "moved_first n st s = (frame s = frame st \<and> headed n (movedSet s) \<and> n \<notin> set (addedSet s))"

lemma movedSet_genAdds_node:
  "movedSet (genAdds_node m t s) = (if isINode s m then set_add m (movedSet s) else movedSet s)"
  by (simp add: genAdds_node_def Let_def split: option.splits)

lemma addedSet_genAdds_node:
  "addedSet (genAdds_node m t s) = (if isINode s m then addedSet s else set_add m (addedSet s))"
  by (simp add: genAdds_node_def Let_def split: option.splits)

lemma moved_first_genAdds_node:
  assumes "moved_first n st s" and "isINode st n"
  shows "moved_first n st (genAdds_node m t s)"
proof -
  from assms have n: "isINode s n"
    using isINode_frame [of s st n] by (simp add: moved_first_def)
  from assms(1) have h: "headed n (movedSet s)" and a: "n \<notin> set (addedSet s)"
    and f: "frame s = frame st"
    by (simp_all add: moved_first_def)
  have "headed n (movedSet (genAdds_node m t s))"
    using h by (simp add: movedSet_genAdds_node headed_set_add)
  moreover have "n \<notin> set (addedSet (genAdds_node m t s))"
    using a n by (auto simp: addedSet_genAdds_node set_add_def)
  ultimately show ?thesis
    using f by (simp add: moved_first_def frame_genAdds_node)
qed

lemma moved_first_genAdds_sub:
  assumes "isINode st n"
  shows "moved_first n st s \<Longrightarrow> moved_first n st (genAdds_sub F t s)"
proof (induction F t s rule: genAdds_sub.induct)
  case (1 F i cs s)
  let ?s1 = "genAdds_node (addr i) None s"
  have s1: "moved_first n st ?s1"
    using "1.prems" assms by (rule moved_first_genAdds_node)
  consider (ign) "isINode s (addr i) \<and> isIgnored s (addr i)"
    | (blk) "\<not> (isINode s (addr i) \<and> isIgnored s (addr i))" "isBlocked F (addr i)"
    | (rec) "\<not> (isINode s (addr i) \<and> isIgnored s (addr i))" "\<not> isBlocked F (addr i)"
    by blast
  then show ?case
  proof cases
    case ign
    then have "genAdds_sub F (DNode i cs) s = s" by auto
    with "1.prems" show ?thesis by simp
  next
    case blk
    then have "genAdds_sub F (DNode i cs) s = ?s1" by (auto simp: Let_def)
    with s1 show ?thesis by simp
  next
    case rec
    then have e: "genAdds_sub F (DNode i cs) s = fold (genAdds_sub F) cs ?s1"
      by (auto simp: Let_def)
    have "moved_first n st (fold (genAdds_sub F) cs ?s1)"
    proof (rule fold_invariant [where Q = "moved_first n st"])
      fix x s'
      assume "x \<in> set cs" and "moved_first n st s'"
      then show "moved_first n st (genAdds_sub F x s')"
        using "1.IH" [OF rec(1) refl rec(2)] by blast
    qed (rule s1)
    with e show ?thesis by simp
  qed
qed

lemma sn_id_serialized [simp]: "sn_id (serialized ni k) = k"
  by (simp add: serialized_def)

lemma ser_getId_other:
  "x \<noteq> m \<Longrightarrow> getId (snd (serializeNodeWithId F m s)) x = getId s x"
  by (simp add: serializeNodeWithId_def Let_def getId_def update_conv' split: option.splits)

lemma ser_getId_self:
  "getId (snd (serializeNodeWithId F m s)) m = getId s m
   \<or> (getId s m = - 1 \<and> (getId (snd (serializeNodeWithId F m s)) m = IGNORED_NODE
        \<or> (getId (snd (serializeNodeWithId F m s)) m = next_id s
            \<and> next_id (snd (serializeNodeWithId F m s)) = next_id s + 1)))"
  by (auto simp: serializeNodeWithId_def Let_def getId_def update_conv' split: option.splits)

lemma ser_next_id: "next_id s \<le> next_id (snd (serializeNodeWithId F m s))"
  by (simp add: serializeNodeWithId_def Let_def split: option.splits)

lemma ser_result:
  "fst (serializeNodeWithId F m s) = Some sn \<Longrightarrow> sn_id sn = getId (snd (serializeNodeWithId F m s)) m"
  by (auto simp: serializeNodeWithId_def Let_def getId_def update_conv'
      split: option.splits if_splits)

lemma ser_e_adds: "e_adds (snd (serializeNodeWithId F m s)) = e_adds s"
  by (simp add: serializeNodeWithId_def Let_def split: option.splits)

definition owns :: "mutationBuffer \<Rightarrow> nat \<Rightarrow> int \<Rightarrow> bool" where
  "owns s n i = (getId s n = i \<and> (\<forall>m. getId s m = i \<longrightarrow> m = n) \<and> i < next_id s)"

lemma ser_owns:
  assumes "owns s n i" and "i \<noteq> IGNORED_NODE" and "i \<noteq> - 1" and "m \<noteq> n"
  shows "owns (snd (serializeNodeWithId F m s)) n i
         \<and> getId (snd (serializeNodeWithId F m s)) m \<noteq> i"
proof -
  let ?s = "snd (serializeNodeWithId F m s)"
  from assms have a: "getId s n = i" and b: "\<And>x. getId s x = i \<Longrightarrow> x = n" and c: "i < next_id s"
    by (auto simp: owns_def)
  have "getId s m \<noteq> i"
    using b [of m] assms(4) by blast
  then have m: "getId ?s m \<noteq> i"
    using ser_getId_self [of F m s] assms(2,3) c by auto
  have n: "getId ?s n = i"
    using ser_getId_other [of n m F s] assms(4) a by simp
  have u: "x = n" if "getId ?s x = i" for x
  proof (cases "x = m")
    case True
    with m that show ?thesis by simp
  next
    case False
    then have "getId s x = getId ?s x" by (simp add: ser_getId_other)
    with that have "getId s x = i" by simp
    then show ?thesis by (rule b)
  qed
  from c ser_next_id [of s F m] have k: "i < next_id ?s" by simp
  have "owns ?s n i"
    unfolding owns_def
  proof (intro conjI allI impI)
    show "getId ?s n = i" by (rule n)
    show "i < next_id ?s" by (rule k)
    fix x assume "getId ?s x = i"
    then show "x = n" by (rule u)
  qed
  with m show ?thesis by simp
qed

lemma isIgnored_getId: "isIgnored s n = (getId s n = IGNORED_NODE)"
  by (simp add: isIgnored_def getId_def IGNORED_NODE_def split: option.splits)

lemma isINode_getId: "isINode s n = (map_of (sn_atlas s) n \<noteq> None)"
  by (simp add: isINode_def)

lemma getId_isINode: "getId s n \<noteq> - 1 \<Longrightarrow> isINode s n"
  by (simp add: isINode_def getId_def split: option.splits)

lemma getId_cong: "sn_atlas s = sn_atlas s' \<Longrightarrow> getId s = getId s'"
  by (rule ext) (simp add: getId_def)

lemma getNextId_from_cong: "getId s = getId s' \<Longrightarrow> getNextId_from s xs = getNextId_from s' xs"
  by (induction xs) simp_all

lemma getNextId_cong: "sn_atlas s = sn_atlas s' \<Longrightarrow> getNextId F s n = getNextId F s' n"
  unfolding getNextId_def by (rule getNextId_from_cong) (rule getId_cong)

lemma owns_cong:
  "sn_atlas s = sn_atlas s' \<Longrightarrow> next_id s = next_id s' \<Longrightarrow> owns s n i = owns s' n i"
  using getId_cong [of s s'] by (simp add: owns_def)

lemma ancestors_in_fresh:
  "ancestors_in r anc ts = Some a \<Longrightarrow> r \<notin> set anc \<Longrightarrow> r \<notin> set a"
  by (induction r anc ts arbitrary: a rule: ancestors_in.induct)
     (auto split: if_splits option.splits)

lemma not_own_ancestor: "n \<notin> set (ancestors F n)"
  using ancestors_in_fresh [of n "[]" F]
  by (auto simp: ancestors_def split: option.splits)

lemma isParentRemoved_chain_single:
  "\<forall>p\<in>set ps. getId s p \<noteq> r_id r \<Longrightarrow> \<not> isParentRemoved_chain [r] s ps"
  by (induction ps) auto

lemma unregister_mirror: "\<exists>mm. unregister n s = s\<lparr>mirror_map := mm\<rparr>"
proof (cases "map_of (sn_atlas s) n")
  case None
  then have "unregister n s = s\<lparr>mirror_map := mirror_map s\<rparr>"
    by (simp add: unregister_def)
  then show ?thesis ..
next
  case (Some sn)
  then have "unregister n s = s\<lparr>mirror_map := AList.delete (sn_id sn) (mirror_map s)\<rparr>"
    by (simp add: unregister_def)
  then show ?thesis ..
qed

lemma fold_unregister_mirror: "\<exists>mm. fold unregister ns s = s\<lparr>mirror_map := mm\<rparr>"
proof (induction ns arbitrary: s)
  case Nil
  have "fold unregister [] s = s\<lparr>mirror_map := mirror_map s\<rparr>" by simp
  then show ?case ..
next
  case (Cons a ns)
  obtain m1 where m1: "unregister a s = s\<lparr>mirror_map := m1\<rparr>"
    using unregister_mirror by blast
  obtain m2 where "fold unregister ns (s\<lparr>mirror_map := m1\<rparr>) = s\<lparr>mirror_map := m1\<rparr>\<lparr>mirror_map := m2\<rparr>"
    using Cons.IH by blast
  with m1 have "fold unregister (a # ns) s = s\<lparr>mirror_map := m2\<rparr>" by simp
  then show ?case ..
qed

lemma removeNodeFromMap_mirror: "\<exists>mm. removeNodeFromMap F n s = s\<lparr>mirror_map := mm\<rparr>"
  unfolding removeNodeFromMap_def by (rule fold_unregister_mirror)

lemma fold_removeNodeFromMap_mirror:
  "\<exists>mm. fold (removeNodeFromMap F) ns s = s\<lparr>mirror_map := mm\<rparr>"
proof (induction ns arbitrary: s)
  case Nil
  have "fold (removeNodeFromMap F) [] s = s\<lparr>mirror_map := mirror_map s\<rparr>" by simp
  then show ?case ..
next
  case (Cons a ns)
  obtain m1 where m1: "removeNodeFromMap F a s = s\<lparr>mirror_map := m1\<rparr>"
    using removeNodeFromMap_mirror by blast
  obtain m2 where "fold (removeNodeFromMap F) ns (s\<lparr>mirror_map := m1\<rparr>)
      = s\<lparr>mirror_map := m1\<rparr>\<lparr>mirror_map := m2\<rparr>"
    using Cons.IH by blast
  with m1 have "fold (removeNodeFromMap F) (a # ns) s = s\<lparr>mirror_map := m2\<rparr>" by simp
  then show ?case ..
qed

lemma set_insert_after: "set (insert_after p n l) \<subseteq> insert n (set l)"
  by (induction l) auto

lemma set_insert_before: "set (insert_before p n l) \<subseteq> insert n (set l)"
  by (induction l) auto

lemma set_addNode: "set (addNode F n l) \<subseteq> insert n (set l)"
  using set_insert_after set_insert_before
  by (auto simp: addNode_def split: option.splits)

definition settled :: "nat \<Rightarrow> int \<Rightarrow> addedNodeMutation list \<Rightarrow> mutationBuffer \<Rightarrow> bool" where
  "settled n i E s =
     (owns s n i \<and> n \<notin> set (addList s) \<and> filter (\<lambda>a. sn_id (a_node a) = i) (e_adds s) = E)"

lemma settled_pushAdd:
  assumes s: "settled n i E s" and i: "i \<noteq> IGNORED_NODE" "i \<noteq> - 1" and m: "m \<noteq> n"
  shows "settled n i E (pushAdd F doc m s)"
proof -
  from s have o: "owns s n i" and a: "n \<notin> set (addList s)"
    and e: "filter (\<lambda>a. sn_id (a_node a) = i) (e_adds s) = E"
    by (simp_all add: settled_def)
  obtain r s1 where ser: "serializeNodeWithId F m s = (r, s1)"
    by (cases "serializeNodeWithId F m s")
  from ser_owns [OF o i m, of F] ser have o1: "owns s1 n i" and g: "getId s1 m \<noteq> i"
    by simp_all
  from ser serializeNodeWithId_addList [of F m s] have a1: "addList s1 = addList s" by simp
  from ser ser_e_adds [of F m s] have e1: "e_adds s1 = e_adds s" by simp
  have r: "sn_id sn \<noteq> i" if "r = Some sn" for sn
    using ser_result [of F m s sn] ser that g by simp
  have pend: "settled n i E (s\<lparr>addList := addNode F m (addList s)\<rparr>)"
  proof -
    have "owns (s\<lparr>addList := addNode F m (addList s)\<rparr>) n i"
      using o owns_cong [of "s\<lparr>addList := addNode F m (addList s)\<rparr>" s n i] by simp
    moreover have "n \<notin> set (addNode F m (addList s))"
      using set_addNode [of F m "addList s"] a m by auto
    ultimately show ?thesis using e by (simp add: settled_def)
  qed
  have ser_case: "settled n i E (case r of None \<Rightarrow> s1 | Some sn \<Rightarrow> s1\<lparr>e_adds := e_adds s1 @ [x sn]\<rparr>)"
    if "\<And>sn. a_node (x sn) = sn" for x
  proof (cases r)
    case None
    with o1 a1 a e1 e show ?thesis by (simp add: settled_def)
  next
    case (Some sn)
    have "owns (s1\<lparr>e_adds := e_adds s1 @ [x sn]\<rparr>) n i"
      using o1 owns_cong [of "s1\<lparr>e_adds := e_adds s1 @ [x sn]\<rparr>" s1 n i] by simp
    with Some r [OF Some] that [of sn] a1 a e1 e show ?thesis by (simp add: settled_def)
  qed
  show ?thesis
    unfolding pushAdd_def Let_def ser
    using s pend ser_case [of "\<lambda>sn. \<lparr>a_parentId = getId_opt s (parentNode F m),
        a_nextId = getNextId F s m, a_previousId = None, a_node = sn\<rparr>"]
    by (simp split: option.splits)
qed

lemma settled_droppedSet: "settled n i E (s\<lparr>droppedSet := d\<rparr>) = settled n i E s"
  using owns_cong [of "s\<lparr>droppedSet := d\<rparr>" s n i] by (simp add: settled_def)

lemma settled_addList:
  "n \<notin> set l \<Longrightarrow> settled n i E s \<Longrightarrow> settled n i E (s\<lparr>addList := l\<rparr>)"
  using owns_cong [of "s\<lparr>addList := l\<rparr>" s n i] by (simp add: settled_def)

lemma settled_movedStep:
  "settled n i E s \<Longrightarrow> i \<noteq> IGNORED_NODE \<Longrightarrow> i \<noteq> - 1 \<Longrightarrow> m \<noteq> n
     \<Longrightarrow> settled n i E (movedStep F doc m s)"
  by (simp add: movedStep_def settled_pushAdd)

lemma settled_addedStep:
  "settled n i E s \<Longrightarrow> i \<noteq> IGNORED_NODE \<Longrightarrow> i \<noteq> - 1 \<Longrightarrow> m \<noteq> n
     \<Longrightarrow> settled n i E (addedStep F doc m s)"
  by (simp add: addedStep_def settled_pushAdd settled_droppedSet)

lemma settled_resolveAddList:
  assumes i: "i \<noteq> IGNORED_NODE" "i \<noteq> - 1"
  shows "settled n i E s \<Longrightarrow> settled n i E (resolveAddList F doc c s)"
proof (induction F doc c s rule: resolveAddList.induct)
  case (1 F doc candidate st)
  show ?case
  proof (cases "addList st = []")
    case True
    with "1.prems" show ?thesis by (simp add: resolveAddList.simps)
  next
    case False
    show ?thesis
    proof (cases "pick F candidate st")
      case None
      with False "1.prems" show ?thesis
        by (simp add: resolveAddList.simps [of F doc candidate st] settled_addList)
    next
      case (Some m)
      from "1.prems" have nl: "n \<notin> set (addList st)" by (simp add: settled_def)
      with pick_Some [OF Some] have mn: "m \<noteq> n" by auto
      from nl have "n \<notin> set (remove1 m (addList st))"
        using notin_set_remove1 by fast
      then have "settled n i E (st\<lparr>addList := remove1 m (addList st)\<rparr>)"
        using "1.prems" by (rule settled_addList)
      then have "settled n i E (pushAdd F doc m (st\<lparr>addList := remove1 m (addList st)\<rparr>))"
        using i mn by (rule settled_pushAdd)
      with False Some "1.IH" [OF False Some] show ?thesis
        by (simp add: resolveAddList.simps [of F doc candidate st])
    qed
  qed
qed

lemma settled_fold_movedStep:
  assumes "settled n i E s" "i \<noteq> IGNORED_NODE" "i \<noteq> - 1" "n \<notin> set xs"
  shows "settled n i E (fold (movedStep F doc) xs s)"
proof (rule fold_invariant [where Q = "settled n i E"])
  fix x s' assume "x \<in> set xs" and "settled n i E s'"
  with assms(2,3,4) show "settled n i E (movedStep F doc x s')"
    by (intro settled_movedStep) auto
qed (rule assms(1))

lemma settled_fold_addedStep:
  assumes "settled n i E s" "i \<noteq> IGNORED_NODE" "i \<noteq> - 1" "n \<notin> set xs"
  shows "settled n i E (fold (addedStep F doc) xs s)"
proof (rule fold_invariant [where Q = "settled n i E"])
  fix x s' assume "x \<in> set xs" and "settled n i E s'"
  with assms(2,3,4) show "settled n i E (addedStep F doc x s')"
    by (intro settled_addedStep) auto
qed (rule assms(1))

lemma addedSet_fold_movedStep: "addedSet (fold (movedStep F doc) xs s) = addedSet s"
  using kept_fold [of "movedStep F doc" xs s, OF kept_movedStep] by (simp add: kept_def)

text \<open>The relocated node is serialized first: the state after its step.\<close>

lemma relocated_first_step:
  assumes o: "owns s n i" and i: "i \<noteq> IGNORED_NODE" "i \<noteq> - 1"
    and rm: "b_removes s = [r]" "r_id r = i"
    and B: "parentNode F n = Some B" "getId s B \<noteq> - 1" "contains F doc n"
    and nx: "getNextId F s n \<noteq> Some (- 1)"
    and ni: "nodeInfo F n = Some ni" "kind ni \<noteq> FragmentNode"
    and l: "e_adds s = []" "addList s = []"
  shows "settled n i [\<lparr>a_parentId = getId s B, a_nextId = getNextId F s n, a_previousId = None,
                        a_node = serialized ni i\<rparr>] (movedStep F doc n s)"
proof -
  from o have g: "getId s n = i" and u: "\<And>x. getId s x = i \<Longrightarrow> x = n" and k: "i < next_id s"
    by (auto simp: owns_def)
  have "\<forall>p\<in>set (ancestors F n). getId s p \<noteq> r_id r"
  proof
    fix p assume p: "p \<in> set (ancestors F n)"
    show "getId s p \<noteq> r_id r"
    proof
      assume "getId s p = r_id r"
      with rm(2) have "p = n" by (intro u) simp
      with p not_own_ancestor [of n F] show False by simp
    qed
  qed
  then have npr: "\<not> isParentRemoved F (b_removes s) s n"
    unfolding isParentRemoved_def rm(1) by (rule isParentRemoved_chain_single)
  from g i(2) obtain old where old: "map_of (sn_atlas s) n = Some old" "sn_id old = i"
    by (auto simp: getId_def split: option.splits)
  let ?sn = "serialized ni i"
  let ?s1 = "s\<lparr>sn_atlas := AList.update n ?sn (sn_atlas s)\<rparr>"
  let ?s2 = "?s1\<lparr>mirror_map := AList.update i n (mirror_map ?s1)\<rparr>"
  have ser: "serializeNodeWithId F n s = (Some ?sn, ?s2)"
    using ni old i(1) by (simp add: serializeNodeWithId_def Let_def)
  let ?e = "\<lparr>a_parentId = getId s B, a_nextId = getNextId F s n, a_previousId = None,
             a_node = ?sn\<rparr>"
  have push: "pushAdd F doc n s = ?s2\<lparr>e_adds := [?e]\<rparr>"
    using B nx ser l by (simp add: pushAdd_def Let_def getId_opt_def)
  have gid: "getId (?s2\<lparr>e_adds := [?e]\<rparr>) x = (if x = n then i else getId s x)" for x
    by (simp add: getId_def update_conv')
  have "owns (?s2\<lparr>e_adds := [?e]\<rparr>) n i"
    unfolding owns_def
  proof (intro conjI allI impI)
    show "getId (?s2\<lparr>e_adds := [?e]\<rparr>) n = i" using gid [of n] by simp
    show "i < next_id (?s2\<lparr>e_adds := [?e]\<rparr>)" using k by simp
    fix x assume "getId (?s2\<lparr>e_adds := [?e]\<rparr>) x = i"
    then show "x = n" using u [of x] gid [of x] by (cases "x = n") simp_all
  qed
  then have "settled n i [?e] (?s2\<lparr>e_adds := [?e]\<rparr>)"
    using l by (simp add: settled_def)
  with push npr show ?thesis
    by (simp add: movedStep_def)
qed

lemma classify_relocation:
  assumes e: "b_removes st = []" "mapRemoves st = []" "addedSet st = []" "movedSet st = []"
    and o: "getId st n = i" "i \<noteq> IGNORED_NODE" "i \<noteq> - 1"
    and A: "\<not> isIgnored st A" "\<not> isBlocked F A" "\<not> isAncestorRemoved F st A"
    and B: "\<not> isIgnored st B" "\<not> isBlocked F B"
  shows "\<exists>sb xs. fold (processMutation F) (relocate A B n) st = sb
           \<and> movedSet sb = n # xs \<and> n \<notin> set xs \<and> n \<notin> set (addedSet sb)
           \<and> b_removes sb = [\<lparr>r_parentId = getId st A, r_id = i, r_isShadow = None\<rparr>]
           \<and> mapRemoves sb = [n] \<and> sn_atlas sb = sn_atlas st \<and> next_id sb = next_id st
           \<and> frozen sb = frozen st \<and> locked sb = locked st \<and> emitted sb = emitted st"
proof -
  let ?rm = "\<lparr>r_parentId = getId st A, r_id = i, r_isShadow = None\<rparr>"
  let ?sa = "st\<lparr>b_removes := [?rm], mapRemoves := [n]\<rparr>"
  have ign: "\<not> isIgnored st n"
    using o by (simp add: isIgnored_getId)
  have sa: "processMutation F (ChildList A [] [n]) st = ?sa"
    using e o A ign by (simp add: processMutation_def processRemoved_def Let_def)
  have inode: "isINode ?sa n"
    using getId_isINode [of st n] o by (simp add: isINode_def)
  have ignB: "\<not> isIgnored ?sa B" and ignn: "\<not> isIgnored ?sa n"
    using B ign by (simp_all add: isIgnored_def)
  let ?s1 = "genAdds_node n (Some B) ?sa"
  have mf1: "moved_first n ?sa ?s1"
    unfolding moved_first_def
  proof (intro conjI)
    show "frame ?s1 = frame ?sa" by (rule frame_genAdds_node)
    show "headed n (movedSet ?s1)"
      using inode e by (simp add: movedSet_genAdds_node set_add_def headed_def)
    show "n \<notin> set (addedSet ?s1)"
      using inode e by (simp add: addedSet_genAdds_node)
  qed
  have mf: "moved_first n ?sa (genAdds F n (Some B) ?sa)"
  proof (cases "isBlocked F n")
    case True
    with B ignn mf1 show ?thesis by (simp add: genAdds_def Let_def)
  next
    case False
    have "moved_first n ?sa (fold (genAdds_sub F) (childTrees F n) ?s1)"
    proof (rule fold_invariant [where Q = "moved_first n ?sa"])
      fix x s' assume "moved_first n ?sa s'"
      then show "moved_first n ?sa (genAdds_sub F x s')"
        using inode by (intro moved_first_genAdds_sub)
    qed (rule mf1)
    with False B ignn show ?thesis by (simp add: genAdds_def Let_def)
  qed
  let ?sb = "genAdds F n (Some B) ?sa"
  have sb: "fold (processMutation F) (relocate A B n) st = ?sb"
    using sa ignB by (simp add: relocate_def processMutation_def)
  from mf have fr: "frame ?sb = frame ?sa" and hd: "headed n (movedSet ?sb)"
    and na: "n \<notin> set (addedSet ?sb)"
    by (simp_all add: moved_first_def)
  from hd obtain xs where xs: "movedSet ?sb = n # xs" "n \<notin> set xs"
    by (auto simp: headed_def split: list.splits)
  from fr have "b_removes ?sb = [?rm]" "mapRemoves ?sb = [n]" "sn_atlas ?sb = sn_atlas st"
    "next_id ?sb = next_id st" "frozen ?sb = frozen st" "locked ?sb = locked st"
    "emitted ?sb = emitted st"
    by (simp_all add: frame_def)
  with sb xs na show ?thesis by blast
qed

lemma locate_dref:
  "locate r p pre ts = Some (p', pre', t, post) \<Longrightarrow> dref t = r"
  by (induction r p pre ts rule: locate.induct)
     (auto simp: dref_def split: if_splits option.splits)

lemma subtree_dref: "subtree F r = Some t \<Longrightarrow> dref t = r"
  using locate_dref [of r None "[]" F]
  by (auto simp: subtree_def lookup_def split: option.splits)

lemma self_in_subrefs: "n \<in> set (subrefs F n)"
proof (cases "subtree F n")
  case None
  then show ?thesis by (simp add: subrefs_def)
next
  case (Some t)
  from subtree_dref [OF Some] have "n \<in> set (refs t)"
    by (cases t) (simp add: dref_def)
  with Some show ?thesis by (simp add: subrefs_def)
qed

lemma mem_addedSet_genAdds_node:
  "n \<in> set (addedSet s) \<Longrightarrow> n \<in> set (addedSet (genAdds_node m t s))"
  by (simp add: addedSet_genAdds_node set_add_def)

lemma mem_addedSet_genAdds_sub:
  "n \<in> set (addedSet s) \<Longrightarrow> n \<in> set (addedSet (genAdds_sub F t s))"
proof (induction F t s rule: genAdds_sub.induct)
  case (1 F i cs s)
  let ?s1 = "genAdds_node (addr i) None s"
  have s1: "n \<in> set (addedSet ?s1)"
    using "1.prems" by (rule mem_addedSet_genAdds_node)
  consider (ign) "isINode s (addr i) \<and> isIgnored s (addr i)"
    | (blk) "\<not> (isINode s (addr i) \<and> isIgnored s (addr i))" "isBlocked F (addr i)"
    | (rec) "\<not> (isINode s (addr i) \<and> isIgnored s (addr i))" "\<not> isBlocked F (addr i)"
    by blast
  then show ?case
  proof cases
    case ign
    then have "genAdds_sub F (DNode i cs) s = s" by auto
    with "1.prems" show ?thesis by simp
  next
    case blk
    then have "genAdds_sub F (DNode i cs) s = ?s1" by (auto simp: Let_def)
    with s1 show ?thesis by simp
  next
    case rec
    then have e: "genAdds_sub F (DNode i cs) s = fold (genAdds_sub F) cs ?s1"
      by (auto simp: Let_def)
    have "n \<in> set (addedSet (fold (genAdds_sub F) cs ?s1))"
    proof (rule fold_invariant [where Q = "\<lambda>s::mutationBuffer. n \<in> set (addedSet s)"])
      fix x and s' :: mutationBuffer
      assume "x \<in> set cs" and "n \<in> set (addedSet s')"
      then show "n \<in> set (addedSet (genAdds_sub F x s'))"
        using "1.IH" [OF rec(1) refl rec(2)] by blast
    qed (rule s1)
    with e show ?thesis by simp
  qed
qed

lemma mem_addedSet_genAdds:
  assumes "\<not> isINode st n" and "\<not> isBlocked F P"
  shows "n \<in> set (addedSet (genAdds F n (Some P) st))"
proof -
  let ?s1 = "genAdds_node n (Some P) st"
  have s1: "n \<in> set (addedSet ?s1)"
    using assms(1) by (simp add: addedSet_genAdds_node set_add_def)
  have "n \<in> set (addedSet (fold (genAdds_sub F) (childTrees F n) ?s1))"
    by (rule fold_invariant [where Q = "\<lambda>s::mutationBuffer. n \<in> set (addedSet s)"])
       (simp_all add: mem_addedSet_genAdds_sub s1)
  with assms s1 show ?thesis
    by (simp add: genAdds_def Let_def)
qed

text \<open>The identity map, the pending removes and the emitted payloads.\<close>

definition idframe :: "mutationBuffer \<Rightarrow> bool \<times> bool \<times> (nat \<times> string option) list \<times>
    (nat \<times> (string \<times> attrValue) list) list \<times> removedNodeMutation list \<times> (int \<times> nat) list \<times>
    (nat \<times> serializedNode) list \<times> int \<times> mutationData list" where
  "idframe s = (frozen s, locked s, b_texts s, b_attributes s, b_removes s, mirror_map s,
                sn_atlas s, next_id s, emitted s)"

lemma idframe_frame: "frame s = frame st \<Longrightarrow> idframe s = idframe st"
  by (simp add: frame_def idframe_def)

lemma idframe_processRemoved:
  "n \<in> set (addedSet s) \<or> isBlocked F P \<Longrightarrow> idframe (processRemoved F P n s) = idframe s"
  by (auto simp: processRemoved_def Let_def idframe_def)

lemma idframe_add_then_remove:
  assumes "map_of (sn_atlas st) n = None"
  shows "idframe (fold (processMutation F) (add_then_remove P n) st) = idframe st"
proof (cases "isIgnored st P")
  case True
  then show ?thesis by (simp add: add_then_remove_def processMutation_def)
next
  case False
  let ?s1 = "genAdds F n (Some P) st"
  have f1: "frame ?s1 = frame st" by (rule frame_genAdds)
  then have ig: "\<not> isIgnored ?s1 P" using False isIgnored_frame [of ?s1 st P] by simp
  have sb: "fold (processMutation F) (add_then_remove P n) st = processRemoved F P n ?s1"
    using False ig by (simp add: add_then_remove_def processMutation_def)
  have "n \<in> set (addedSet ?s1) \<or> isBlocked F P"
    using mem_addedSet_genAdds [of st n F P] assms by (auto simp: isINode_def)
  then have "idframe (processRemoved F P n ?s1) = idframe ?s1"
    by (rule idframe_processRemoved)
  with sb idframe_frame [OF f1] show ?thesis by simp
qed

definition ids_wellformed :: "mutationBuffer \<Rightarrow> bool" where
  "ids_wellformed s =
     (map_of (mirror_map s) (- 1) = None
      \<and> (\<forall>m sn. map_of (sn_atlas s) m = Some sn \<longrightarrow> sn_id sn \<noteq> - 1)
      \<and> 0 \<le> next_id s)"

definition unseen :: "nat set \<Rightarrow> mutationBuffer \<Rightarrow> bool" where
  "unseen S s =
     (ids_wellformed s \<and> (\<forall>d\<in>S. map_of (sn_atlas s) d = None)
      \<and> (\<forall>a\<in>set (e_adds s). sn_id (a_node a) \<noteq> - 1))"

lemma wf_fields:
  assumes "ids_wellformed s"
  shows "map_of (mirror_map s) (- 1) = None"
    and "\<And>m sn. map_of (sn_atlas s) m = Some sn \<Longrightarrow> sn_id sn \<noteq> - 1"
    and "0 \<le> next_id s"
  using assms unfolding ids_wellformed_def by blast+

lemma ser_sn_atlas_other:
  "d \<noteq> m \<Longrightarrow> map_of (sn_atlas (snd (serializeNodeWithId F m s))) d = map_of (sn_atlas s) d"
  by (simp add: serializeNodeWithId_def Let_def update_conv' split: option.splits)

lemma ser_sn_atlas_self:
  assumes "map_of (sn_atlas (snd (serializeNodeWithId F m s))) m = Some sn"
  shows "map_of (sn_atlas s) m = Some sn
         \<or> (\<exists>old. map_of (sn_atlas s) m = Some old \<and> sn_id sn = sn_id old)
         \<or> sn_id sn = IGNORED_NODE \<or> sn_id sn = next_id s"
  using assms
  by (auto simp: serializeNodeWithId_def Let_def update_conv' split: option.splits if_splits)

lemma ser_mirror_key:
  assumes "map_of (mirror_map (snd (serializeNodeWithId F m s))) k = Some v"
  shows "map_of (mirror_map s) k = Some v
         \<or> (\<exists>old. map_of (sn_atlas s) m = Some old \<and> k = sn_id old)
         \<or> k = next_id s"
  using assms
  by (auto simp: serializeNodeWithId_def Let_def update_conv' split: option.splits if_splits)

lemma ser_wellformed:
  assumes "ids_wellformed s"
  shows "ids_wellformed (snd (serializeNodeWithId F m s))"
proof -
  let ?s = "snd (serializeNodeWithId F m s)"
  note wf = wf_fields [OF assms]
  have a: "map_of (mirror_map ?s) (- 1) = None"
  proof (rule ccontr)
    assume "map_of (mirror_map ?s) (- 1) \<noteq> None"
    then obtain v where "map_of (mirror_map ?s) (- 1) = Some v" by auto
    from ser_mirror_key [OF this] wf show False by force
  qed
  have b: "sn_id sn \<noteq> - 1" if "map_of (sn_atlas ?s) x = Some sn" for x sn
  proof (cases "x = m")
    case False
    with that wf(2) [of x sn] show ?thesis by (simp add: ser_sn_atlas_other)
  next
    case True
    with that have "map_of (sn_atlas ?s) m = Some sn" by simp
    from ser_sn_atlas_self [OF this] wf show ?thesis
      by (force simp: IGNORED_NODE_def)
  qed
  have "0 \<le> next_id ?s" using wf(3) ser_next_id [of s F m] by simp
  with a b show ?thesis unfolding ids_wellformed_def by blast
qed

lemma ser_result_id:
  assumes "ids_wellformed s" and "fst (serializeNodeWithId F m s) = Some sn"
  shows "sn_id sn \<noteq> - 1"
proof -
  from assms(2) have "map_of (sn_atlas (snd (serializeNodeWithId F m s))) m = Some sn"
    by (auto simp: serializeNodeWithId_def Let_def update_conv' split: option.splits if_splits)
  with wf_fields(2) [OF ser_wellformed [OF assms(1)]] show ?thesis by blast
qed

lemma unseen_pushAdd:
  assumes u: "unseen S s" and gone: "\<forall>d\<in>S. \<not> contains F doc d"
  shows "unseen S (pushAdd F doc m s)"
proof (cases "parentNode F m = None \<or> \<not> contains F doc m")
  case True
  with u show ?thesis by (simp add: pushAdd_def)
next
  case False
  with gone have mS: "m \<notin> S" by blast
  from u have wf: "ids_wellformed s" and fr: "\<forall>d\<in>S. map_of (sn_atlas s) d = None"
    and ad: "\<forall>a\<in>set (e_adds s). sn_id (a_node a) \<noteq> - 1"
    by (simp_all add: unseen_def)
  obtain r s1 where ser: "serializeNodeWithId F m s = (r, s1)"
    by (cases "serializeNodeWithId F m s")
  from ser ser_wellformed [OF wf, of F m] have wf1: "ids_wellformed s1" by simp
  have fr1: "\<forall>d\<in>S. map_of (sn_atlas s1) d = None"
  proof
    fix d assume d: "d \<in> S"
    with mS have "d \<noteq> m" by blast
    from ser_sn_atlas_other [OF this, of F s] ser fr d show "map_of (sn_atlas s1) d = None"
      by simp
  qed
  from ser ser_e_adds [of F m s] have e1: "e_adds s1 = e_adds s" by simp
  have r: "sn_id sn \<noteq> - 1" if "r = Some sn" for sn
    using ser_result_id [OF wf, of F m sn] ser that by simp
  have pend: "unseen S (s\<lparr>addList := l\<rparr>)" for l
    using u by (simp add: unseen_def ids_wellformed_def)
  have ser_case: "unseen S (case r of None \<Rightarrow> s1 | Some sn \<Rightarrow> s1\<lparr>e_adds := e_adds s1 @ [x sn]\<rparr>)"
    if "\<And>sn. a_node (x sn) = sn" for x
  proof (cases r)
    case None
    with wf1 fr1 e1 ad show ?thesis by (simp add: unseen_def)
  next
    case (Some sn)
    with wf1 fr1 e1 ad r [OF Some] that [of sn] show ?thesis
      by (simp add: unseen_def ids_wellformed_def)
  qed
  show ?thesis
    unfolding pushAdd_def Let_def ser
    using False pend ser_case [of "\<lambda>sn. \<lparr>a_parentId = getId_opt s (parentNode F m),
        a_nextId = getNextId F s m, a_previousId = None, a_node = sn\<rparr>"]
    by (simp split: option.splits)
qed

lemma unseen_droppedSet: "unseen S (s\<lparr>droppedSet := d\<rparr>) = unseen S s"
  by (simp add: unseen_def ids_wellformed_def)

lemma unseen_addList: "unseen S (s\<lparr>addList := l\<rparr>) = unseen S s"
  by (simp add: unseen_def ids_wellformed_def)

lemma unseen_mapRemoves: "unseen S (s\<lparr>mapRemoves := l\<rparr>) = unseen S s"
  by (simp add: unseen_def ids_wellformed_def)

lemma unseen_movedStep:
  "unseen S s \<Longrightarrow> \<forall>d\<in>S. \<not> contains F doc d \<Longrightarrow> unseen S (movedStep F doc m s)"
  by (simp add: movedStep_def unseen_pushAdd)

lemma unseen_addedStep:
  "unseen S s \<Longrightarrow> \<forall>d\<in>S. \<not> contains F doc d \<Longrightarrow> unseen S (addedStep F doc m s)"
  by (simp add: addedStep_def unseen_pushAdd unseen_droppedSet)

lemma unseen_resolveAddList:
  assumes gone: "\<forall>d\<in>S. \<not> contains F doc d"
  shows "unseen S s \<Longrightarrow> unseen S (resolveAddList F doc c s)"
  using gone
proof (induction F doc c s rule: resolveAddList.induct)
  case (1 F doc candidate st)
  show ?case
  proof (cases "addList st = []")
    case True
    with "1.prems" show ?thesis by (simp add: resolveAddList.simps)
  next
    case False
    show ?thesis
    proof (cases "pick F candidate st")
      case None
      with False "1.prems" show ?thesis
        by (simp add: resolveAddList.simps [of F doc candidate st] unseen_addList)
    next
      case (Some m)
      have "unseen S (pushAdd F doc m (st\<lparr>addList := remove1 m (addList st)\<rparr>))"
        using "1.prems" by (intro unseen_pushAdd) (simp_all add: unseen_addList)
      with False Some "1.IH" [OF False Some] "1.prems"(2) show ?thesis
        by (simp add: resolveAddList.simps [of F doc candidate st])
    qed
  qed
qed

lemma map_of_delete_None: "map_of al k = None \<Longrightarrow> map_of (AList.delete x al) k = None"
  by (simp add: delete_conv')

lemma unseen_unregister: "unseen S s \<Longrightarrow> unseen S (unregister n s)"
  by (auto simp: unregister_def unseen_def ids_wellformed_def map_of_delete_None
      split: option.splits)

lemma unseen_removeNodeFromMap: "unseen S s \<Longrightarrow> unseen S (removeNodeFromMap F n s)"
  unfolding removeNodeFromMap_def
  by (rule fold_invariant [where Q = "unseen S"]) (simp_all add: unseen_unregister)

lemma unseen_fold:
  assumes "\<And>x s. unseen S s \<Longrightarrow> unseen S (f x s)" and "unseen S s"
  shows "unseen S (fold f xs s)"
  using assms by (induction xs arbitrary: s) simp_all

lemma unseen_emit_prepare:
  assumes wf: "ids_wellformed s" and fr: "\<forall>d\<in>S. map_of (sn_atlas s) d = None"
    and gone: "\<forall>d\<in>S. \<not> contains F doc d"
  shows "unseen S (emit_prepare F doc s)"
proof -
  let ?s0 = "s\<lparr>e_adds := [], addList := []\<rparr>"
  have u0: "unseen S ?s0"
    using wf fr by (simp add: unseen_def ids_wellformed_def)
  have "unseen S (fold (removeNodeFromMap F) (mapRemoves ?s0) ?s0)"
    using unseen_removeNodeFromMap u0 by (rule unseen_fold)
  then have u1: "unseen S ((fold (removeNodeFromMap F) (mapRemoves ?s0) ?s0)\<lparr>mapRemoves := []\<rparr>)"
    (is "unseen S ?s1")
    by (simp only: unseen_mapRemoves)
  have u2: "unseen S (fold (movedStep F doc) (movedSet ?s1) ?s1)" (is "unseen S ?s2")
    using unseen_movedStep [OF _ gone] u1 by (rule unseen_fold)
  have u3: "unseen S (fold (addedStep F doc) (addedSet ?s2) ?s2)" (is "unseen S ?s3")
    using unseen_addedStep [OF _ gone] u2 by (rule unseen_fold)
  have "unseen S (resolveAddList F doc None ?s3)"
    using gone u3 by (rule unseen_resolveAddList)
  then show ?thesis
    by (simp add: emit_prepare_def Let_def)
qed

lemma e_adds_pushAdd: "length (e_adds (pushAdd F doc n s)) \<le> Suc (length (e_adds s))"
proof -
  obtain r s1 where ser: "serializeNodeWithId F n s = (r, s1)"
    by (cases "serializeNodeWithId F n s")
  with ser_e_adds [of F n s] have "e_adds s1 = e_adds s" by simp
  with ser show ?thesis
    by (simp add: pushAdd_def Let_def split: option.splits)
qed

lemma resolve_step_addList:
  assumes "pick F c st = Some n"
  shows "addList (pushAdd F doc n (st\<lparr>addList := remove1 n (addList st)\<rparr>)) = remove1 n (addList st)"
    and "Suc (length (remove1 n (addList st))) = length (addList st)"
proof -
  from pick_Some [OF assms] have mem: "n \<in> set (addList st)" and res: "resolvable F st n"
    by simp_all
  from res have "resolvable F (st\<lparr>addList := remove1 n (addList st)\<rparr>) n" by simp
  then show "addList (pushAdd F doc n (st\<lparr>addList := remove1 n (addList st)\<rparr>)) = remove1 n (addList st)"
    by (simp add: pushAdd_resolvable_addList)
  from mem show "Suc (length (remove1 n (addList st))) = length (addList st)"
    using length_pos_if_in_set [of n "addList st"] by (simp add: length_remove1)
qed

lemma resolveAddList_result:
  "addList (resolveAddList F doc c st) = []
   \<and> length (e_adds (resolveAddList F doc c st)) \<le> length (e_adds st) + length (addList st)"
proof (induction F doc c st rule: resolveAddList.induct)
  case (1 F doc candidate st)
  show ?case
  proof (cases "addList st = []")
    case True
    then show ?thesis by (simp add: resolveAddList.simps)
  next
    case False
    show ?thesis
    proof (cases "pick F candidate st")
      case None
      with False show ?thesis
        by (simp add: resolveAddList.simps [of F doc candidate st])
    next
      case (Some n)
      let ?s = "pushAdd F doc n (st\<lparr>addList := remove1 n (addList st)\<rparr>)"
      note st = resolve_step_addList [OF Some]
      have "length (e_adds ?s) \<le> Suc (length (e_adds st))"
        using e_adds_pushAdd [of F doc n "st\<lparr>addList := remove1 n (addList st)\<rparr>"] by simp
      with "1.IH" [OF False Some] st False Some show ?thesis
        by (simp add: resolveAddList.simps [of F doc candidate st])
    qed
  qed
qed

lemma resolveAddList_timed_enough:
  "length (addList st) \<le> budget \<Longrightarrow>
     resolveAddList_timed budget F doc c st = resolveAddList F doc c st"
proof (induction budget arbitrary: c st)
  case 0
  then show ?case by (simp add: resolveAddList.simps)
next
  case (Suc budget)
  show ?case
  proof (cases "addList st = []")
    case True
    then show ?thesis by (simp add: resolveAddList.simps)
  next
    case False
    show ?thesis
    proof (cases "pick F c st")
      case None
      with False show ?thesis by (simp add: resolveAddList.simps [of F doc c st])
    next
      case (Some n)
      note st = resolve_step_addList [OF Some]
      with Suc.prems have "length (addList (pushAdd F doc n (st\<lparr>addList := remove1 n (addList st)\<rparr>))) \<le> budget"
        by simp
      from Suc.IH [OF this] False Some show ?thesis
        by (simp add: resolveAddList.simps [of F doc c st])
    qed
  qed
qed

lemma sample_wellformed: "ids_wellformed sample_buffer"
  unfolding ids_wellformed_def
proof (intro conjI allI impI)
  show "map_of (mirror_map sample_buffer) (- 1) = None" by code_simp
  show "0 \<le> next_id sample_buffer" by code_simp
  fix m sn assume "map_of (sn_atlas sample_buffer) m = Some sn"
  then show "sn_id sn \<noteq> - 1"
    by (auto simp: sample_buffer_def sn_plain_def split: if_splits)
qed

lemma sample_owns: "owns sample_buffer 104 5"
  unfolding owns_def
proof (intro conjI allI impI)
  show "getId sample_buffer 104 = 5" by code_simp
  show "5 < next_id sample_buffer" by code_simp
  fix m assume "getId sample_buffer m = 5"
  then show "m = 104"
    by (simp add: getId_def sample_buffer_def sn_plain_def split: if_splits)
qed

section \<open>Properties of the replayer\<close>

subsection \<open>Lookups\<close>

lemma getNode_started [simp]: "getNode (started ph i st) k = getNode st k"
  by (simp add: started_def getNode_def)

lemma find_None_list_ex: "(List.find P xs = None) = (\<not> list_ex P xs)"
  by (induction xs) simp_all

lemma find_Some_list_ex: "(\<exists>y. List.find P xs = Some y) = list_ex P xs"
  by (induction xs) simp_all

subsection \<open>The record of started mutations\<close>

text \<open>
  Only the four callbacks of \<^verbatim>\<open>applyMutation\<close> write the record; everything they call
  leaves it as it is.
\<close>

lemma applied_warn [simp]: "applied (warn m st) = applied st"
  by (simp add: warn_def)

lemma applied_debug [simp]: "applied (debug m st) = applied st"
  by (simp add: debug_def)

lemma applied_call [simp]: "applied (call c st) = applied st"
  by (simp add: call_def)

lemma applied_started [simp]: "applied (started ph i st) = applied st @ [(ph, i)]"
  by (simp add: started_def)

lemma applied_fold:
  assumes "\<And>x s. applied (f x s) = applied s"
  shows "applied (fold f xs st) = applied st"
  using assms by (induction xs arbitrary: st) simp_all

lemma applied_mirror_unregister [simp]: "applied (mirror_unregister n st) = applied st"
  by (simp add: mirror_unregister_def split: option.splits)

lemma applied_mirror_removeNodeFromMap [simp]:
  "applied (mirror_removeNodeFromMap n st) = applied st"
  unfolding mirror_removeNodeFromMap_def by (rule applied_fold) simp

lemma applied_storeCSSRules [simp]: "applied (storeCSSRules i st) = applied st"
  by (simp add: storeCSSRules_def)

lemma applied_storeState_sub [simp]: "applied (storeState_sub t st) = applied st"
proof (induction t st rule: storeState_sub.induct)
  case (1 i cs st)
  show ?case
  proof (cases "kind i = ElementNode")
    case False
    then show ?thesis by simp
  next
    case True
    let ?st1 = "if fst (scroll i) \<noteq> 0 \<or> snd (scroll i) \<noteq> 0
                then st\<lparr>elementStateMap := AList.update (addr i) (scroll i) (elementStateMap st)\<rparr>
                else st"
    let ?st2 = "if tag i = ''style'' then storeCSSRules i ?st1 else ?st1"
    have a: "applied ?st2 = applied st" by simp
    have "applied (fold storeState_sub xs s) = applied s"
      if "set xs \<subseteq> set (filter (\<lambda>c. kind (info c) = ElementNode) cs)" for xs s
      using that
    proof (induction xs arbitrary: s)
      case Nil
      then show ?case by simp
    next
      case (Cons x xs)
      then show ?case
        using "1.IH" [OF _ refl refl, of x s] True by simp
    qed
    then have F: "applied (fold storeState_sub (filter (\<lambda>c. kind (info c) = ElementNode) cs) s)
                 = applied s" for s
      by blast
    show ?thesis using True by (simp add: Let_def F)
  qed
qed

lemma applied_storeState [simp]: "applied (storeState p st) = applied st"
  by (simp add: storeState_def split: option.splits)

lemma applied_virtualize [simp]: "applied (snd (virtualize i p st)) = applied st"
  by (simp add: virtualize_def Let_def)

lemma applied_buildNodeWithSN [simp]: "applied (snd (buildNodeWithSN sn st)) = applied st"
  by (simp add: buildNodeWithSN_def Let_def)

lemma applied_forget_missing [simp]: "applied (forget_missing i st) = applied st"
  by (simp add: forget_missing_def)

lemma applied_legacy_insert:
  assumes "\<And>s. applied (snd (k s)) = applied s"
  shows "applied (snd (legacy_insert k parent node r mutation st)) = applied st"
  using assms by (simp add: legacy_insert_def Let_def split: sum.splits)

lemma applied_legacy_resolveMissingNode [simp]:
  "applied (snd (legacy_resolveMissingNode depth parent target tm st)) = applied st"
proof (induction depth arbitrary: parent target tm st)
  case 0
  then show ?case by simp
next
  case (Suc depth)
  have k: "applied (snd (legacy_insert (legacy_resolveMissingNode depth p n m) p n r m s)) = applied s"
    for p n m r s
    by (rule applied_legacy_insert) (rule Suc.IH)
  show ?case
    by (simp add: legacy_resolve_body_def Let_def k split: option.splits prod.splits)
qed

lemma applied_clearTextChildren [simp]: "applied (clearTextChildren p st) = applied st"
  unfolding clearTextChildren_def by (rule applied_fold) simp

lemma applied_setTextContent [simp]: "applied (setTextContent t v st) = applied st"
  by (simp add: setTextContent_def Let_def split: option.splits)

lemma applied_chooseParent [simp]:
  "applied (snd (chooseParent useVirtualParent mutation parent st)) = applied st"
  by (simp add: chooseParent_def Let_def)

lemma applied_afterAttach [simp]:
  "applied (snd (afterAttach mutation parent target st)) = applied st"
  by (simp add: afterAttach_def Let_def split: option.splits)

lemma applied_buildAndAttach [simp]:
  "applied (snd (buildAndAttach mutation parent previous next targetDoc st)) = applied st"
proof -
  obtain target st1 where b: "buildNodeWithSN (a_node mutation) st = (target, st1)"
    by (cases "buildNodeWithSN (a_node mutation) st")
  with applied_buildNodeWithSN [of "a_node mutation" st] have "applied st1 = applied st"
    by simp
  with b show ?thesis
    by (simp add: buildAndAttach_def Let_def split: sum.splits)
qed







lemma applied_tryRemoveChild [simp]: "applied (snd (tryRemoveChild p t st)) = applied st"
  by (simp add: tryRemoveChild_def split: sum.splits exn.splits)



lemma applied_applyStyleValue [simp]: "applied (snd (applyStyleValue t sv st)) = applied st"
  by (simp add: applyStyleValue_def)

lemma applied_forEach:
  assumes "\<And>x s. applied (snd (f x s)) = applied s"
  shows "applied (snd (forEach f xs st)) = applied st"
proof (induction xs arbitrary: st)
  case Nil
  then show ?case by simp
next
  case (Cons x xs)
  obtain r s1 where f: "f x st = (r, s1)" by (cases "f x st")
  with assms [of x st] have "applied s1 = applied st" by simp
  with f Cons.IH [of s1] show ?case by (cases r) simp_all
qed

lemma applied_applyAttributeValue [simp]:
  "applied (snd (applyAttributeValue vp m t av st)) = applied st"
  by (simp add: applyAttributeValue_def Let_def applied_forEach
      split: attrValue.splits sum.splits)




text \<open>
  The phases are ranked in the order of the source text of \<^verbatim>\<open>applyMutation\<close>; a run is in
  order up to rank \<open>k\<close> when what it added to the record is sorted by rank and stays
  at or below \<open>k\<close>.
\<close>

fun phase_rank :: "phase \<Rightarrow> nat" where
  "phase_rank Removes = 0"
| "phase_rank Adds = 1"
| "phase_rank Texts = 2"
| "phase_rank Attributes = 3"

definition in_order :: "nat \<Rightarrow> replayer \<Rightarrow> replayer \<Rightarrow> bool" where
  "in_order k st st' =
     (\<exists>t. applied st' = applied st @ t \<and> sorted (map (phase_rank \<circ> fst) t)
          \<and> list_all (\<lambda>e. phase_rank (fst e) \<le> k) t)"


lemma in_order_same: "in_order k a b \<Longrightarrow> applied c = applied b \<Longrightarrow> in_order k a c"
  by (simp add: in_order_def)




subsection \<open>Exceptions\<close>


subsection \<open>Deltas that requeue nothing\<close>

text \<open>
  When the adds leave the queue empty the resolve-tree pass does nothing, whatever time
  it is given.
\<close>

lemma resolveQueue_empty: "queue st = [] \<Longrightarrow> resolveQueue passes vp st = (None, st)"
  by (cases passes) simp_all

lemma applyMutation_without_requeue:
  assumes "queue (snd (then_do (forEach (applyRemove d) (removes d) st) (\<lambda>st1.
             forEach (appendNode vp) (adds d)
               (st1\<lparr>legacy_missingNodeMap := legacy_missingNodeRetryMap st1, queue := [],
                    notVirtualStyles := []\<rparr>)))) = []"
  shows "applyMutation passes d vp st = applyMutation 0 d vp st"
proof -
  obtain e1 s1 where r1: "forEach (applyRemove d) (removes d) st = (e1, s1)"
    by (cases "forEach (applyRemove d) (removes d) st")
  show ?thesis
  proof (cases e1)
    case (Some x)
    with r1 show ?thesis by (simp add: applyMutation_def then_do_def)
  next
    case None
    let ?s1 = "s1\<lparr>legacy_missingNodeMap := legacy_missingNodeRetryMap s1, queue := [],
                    notVirtualStyles := []\<rparr>"
    obtain e2 s2 where r2: "forEach (appendNode vp) (adds d) ?s1 = (e2, s2)"
      by (cases "forEach (appendNode vp) (adds d) ?s1")
    show ?thesis
    proof (cases e2)
      case (Some x)
      with r1 r2 None show ?thesis by (simp add: applyMutation_def then_do_def)
    next
      case n2: None
      from assms r1 r2 None have "queue s2 = []" by (simp add: then_do_def)
      then have "resolveQueue passes vp s2 = resolveQueue 0 vp s2"
        by (simp add: resolveQueue_empty)
      with r1 r2 None n2 show ?thesis by (simp add: applyMutation_def then_do_def)
    qed
  qed
qed

section \<open>Theorems\<close>

text \<open>
  C1 (the tree after virtualized edits and Flush against the tree after the same edits
  applied directly). A text node added to a textarea that already holds one: applied
  directly, the old text child is removed first and the textarea ends with the new child
  alone; applied under a virtual parent, the check for a textarea looks at the fragment,
  nothing is removed, and after Flush the textarea holds both.
\<close>

theorem C1_virtual_parent_skips_textarea_clearing:
  "fst (applyMutation passes add_text False page_textarea) = None
   \<and> childNodes (forest (snd (applyMutation passes add_text False page_textarea))) 102 = [1000]
   \<and> map_option textContent_of
         (subtree (forest (snd (applyMutation passes add_text False page_textarea))) 102)
       = Some ''new''
   \<and> fst (then_do (applyMutation passes add_text True page_textarea) flush) = None
   \<and> childNodes (forest (snd (then_do (applyMutation passes add_text True page_textarea) flush))) 102
       = [103, 1001]
   \<and> map_option textContent_of
         (subtree (forest (snd (then_do (applyMutation passes add_text True page_textarea) flush))) 102)
       = Some ''oldnew''"
proof -
  have a: "applyMutation passes add_text False page_textarea = applyMutation 0 add_text False page_textarea"
    by (rule applyMutation_without_requeue) code_simp
  have b: "applyMutation passes add_text True page_textarea = applyMutation 0 add_text True page_textarea"
    by (rule applyMutation_without_requeue) code_simp
  show ?thesis
    unfolding a b by code_simp
qed



text \<open>
  C3 (as stated: the delta holds one add of the relocated node under \<open>B\<close> and no remove
  of it from \<open>A\<close>). The window in which node 5 moves from parent 3 to parent 4 emits the
  add under 4 together with the remove from 3.
\<close>

theorem C3_relocation_counterexample:
  "emitted (processMutations page_moved 100 (relocate 102 103 104) sample_buffer) =
     [\<lparr>texts = [], attributes = [],
       removes = [\<lparr>r_parentId = 3, r_id = 5, r_isShadow = None\<rparr>],
       adds = [\<lparr>a_parentId = 4, a_nextId = None, a_previousId = None,
                a_node = sn_plain 5 Element ''p''\<rparr>]\<rparr>]"
  by code_simp

text \<open>
  C3 (amended). A node \<open>n\<close> that carries an id \<open>i\<close> and is relocated from \<open>A\<close> to \<open>B\<close>
  yields a delta with exactly one add of the node, under \<open>B\<close>, and exactly one remove,
  of the node from \<open>A\<close>, under these conditions:

  \<^item> \<^verbatim>\<open>emit\<close> is not suppressed by freeze or lock, the window starts with empty buffers
    of removes, added and moved nodes, and holds the two records of the relocation;
  \<^item> \<open>i\<close> is a regular id (not \<open>-1\<close>, not the marker of ignored nodes), no other node
    has it, and it is below the next id that the identity map hands out;
  \<^item> \<open>A\<close> is neither ignored nor blocked, and no ancestor of it has been removed;
  \<^item> \<open>B\<close> is neither ignored nor blocked and carries an id, and when \<^verbatim>\<open>emit\<close> runs the
    node is a child of \<open>B\<close> inside the document;
  \<^item> the next sibling of the node (ignored siblings skipped), if it has one, carries an
    id, and the node is not a document fragment.
\<close>

theorem C3_relocation_emits_add_and_remove:
  assumes run: "\<not> frozen st" "\<not> locked st"
    and e: "b_removes st = []" "mapRemoves st = []" "addedSet st = []" "movedSet st = []"
    and o: "owns st n i" "i \<noteq> IGNORED_NODE" "i \<noteq> - 1"
    and A: "\<not> isIgnored st A" "\<not> isBlocked F A" "\<not> isAncestorRemoved F st A"
    and B: "parentNode F n = Some B" "\<not> isIgnored st B" "\<not> isBlocked F B"
           "getId st B \<noteq> - 1" "contains F doc n"
    and nx: "getNextId F st n \<noteq> Some (- 1)"
    and ni: "nodeInfo F n = Some ni" "kind ni \<noteq> FragmentNode"
  shows "\<exists>p. emitted (processMutations F doc (relocate A B n) st) = emitted st @ [p]
           \<and> removes p = [\<lparr>r_parentId = getId st A, r_id = i, r_isShadow = None\<rparr>]
           \<and> filter (\<lambda>a. sn_id (a_node a) = i) (adds p) =
               [\<lparr>a_parentId = getId st B, a_nextId = getNextId F st n, a_previousId = None,
                 a_node = serialized ni i\<rparr>]"
proof -
  let ?rm = "\<lparr>r_parentId = getId st A, r_id = i, r_isShadow = None\<rparr>"
  let ?e = "\<lparr>a_parentId = getId st B, a_nextId = getNextId F st n, a_previousId = None,
             a_node = serialized ni i\<rparr>"
  from o(1) have g: "getId st n = i" by (simp add: owns_def)
  from classify_relocation [OF e g o(2,3) A B(2,3)]
  obtain sb xs where sb: "fold (processMutation F) (relocate A B n) st = sb"
    and ms: "movedSet sb = n # xs" "n \<notin> set xs" and na: "n \<notin> set (addedSet sb)"
    and rm: "b_removes sb = [?rm]" and mr: "mapRemoves sb = [n]"
    and sn: "sn_atlas sb = sn_atlas st" and nid: "next_id sb = next_id st"
    and fl: "frozen sb = frozen st" "locked sb = locked st" and em: "emitted sb = emitted st"
    by blast
  let ?s0 = "sb\<lparr>e_adds := [], addList := []\<rparr>"
  obtain mm where mm: "fold (removeNodeFromMap F) (mapRemoves ?s0) ?s0 = ?s0\<lparr>mirror_map := mm\<rparr>"
    using fold_removeNodeFromMap_mirror by blast
  let ?s1 = "?s0\<lparr>mirror_map := mm, mapRemoves := []\<rparr>"
  have sn1: "sn_atlas ?s1 = sn_atlas st" and nid1: "next_id ?s1 = next_id st"
    using sn nid by simp_all
  have o1: "owns ?s1 n i"
    using o(1) owns_cong [OF sn1 nid1] by simp
  have first: "settled n i [?e] (movedStep F doc n ?s1)"
  proof -
    have "settled n i [\<lparr>a_parentId = getId ?s1 B, a_nextId = getNextId F ?s1 n,
             a_previousId = None, a_node = serialized ni i\<rparr>] (movedStep F doc n ?s1)"
    proof (rule relocated_first_step [OF o1 o(2,3) _ _ B(1) _ B(5) _ ni])
      show "b_removes ?s1 = [?rm]" using rm by simp
      show "r_id ?rm = i" by simp
      show "getId ?s1 B \<noteq> - 1" using B(4) getId_cong [OF sn1] by simp
      show "getNextId F ?s1 n \<noteq> Some (- 1)" using nx getNextId_cong [OF sn1] by simp
    qed simp_all
    then show ?thesis
      using getId_cong [OF sn1] getNextId_cong [OF sn1, of F n] by simp
  qed
  let ?s2 = "fold (movedStep F doc) (movedSet ?s1) ?s1"
  have "?s2 = fold (movedStep F doc) xs (movedStep F doc n ?s1)"
    using ms by simp
  moreover have "settled n i [?e] (fold (movedStep F doc) xs (movedStep F doc n ?s1))"
    using first o(2,3) ms(2) by (rule settled_fold_movedStep)
  ultimately have s2: "settled n i [?e] ?s2" by simp
  have "addedSet ?s2 = addedSet sb"
    by (simp add: addedSet_fold_movedStep)
  with na have na2: "n \<notin> set (addedSet ?s2)" by simp
  let ?s3 = "fold (addedStep F doc) (addedSet ?s2) ?s2"
  have s3: "settled n i [?e] ?s3"
    using s2 o(2,3) na2 by (rule settled_fold_addedStep)
  have s4: "settled n i [?e] (resolveAddList F doc None ?s3)"
    using o(2,3) s3 by (rule settled_resolveAddList)
  have prep: "emit_prepare F doc sb = resolveAddList F doc None ?s3"
    using mm by (simp add: emit_prepare_def Let_def)
  let ?s4 = "emit_prepare F doc sb"
  from s4 prep have fil: "filter (\<lambda>a. sn_id (a_node a) = i) (e_adds ?s4) = [?e]"
    by (simp add: settled_def)
  from kept_emit_prepare [of F doc sb] have k: "b_removes ?s4 = [?rm]" "emitted ?s4 = emitted st"
    using rm em by (simp_all add: kept_def)
  let ?p = "compose_payload ?s4"
  have p1: "removes ?p = [?rm]" and p2: "adds ?p = e_adds ?s4"
    using k by (simp_all add: compose_payload_def)
  then have ne: "\<not> payload_empty ?p"
    by (simp add: payload_empty_def)
  have "emitted (processMutations F doc (relocate A B n) st) = emitted st @ [?p]"
    using sb run fl ne k by (simp add: processMutations_def emit_def Let_def reset_buffers_def)
  with p1 p2 fil show ?thesis by auto
qed

theorem C3_relocation_witness:
  "\<exists>p. emitted (processMutations page_moved 100 (relocate 102 103 104) sample_buffer) = [p]
       \<and> removes p = [\<lparr>r_parentId = 3, r_id = 5, r_isShadow = None\<rparr>]
       \<and> filter (\<lambda>a. sn_id (a_node a) = 5) (adds p) =
           [\<lparr>a_parentId = 4, a_nextId = None, a_previousId = None,
             a_node = sn_plain 5 Element ''p''\<rparr>]"
proof -
  have run: "\<not> frozen sample_buffer" "\<not> locked sample_buffer" by code_simp+
  have e: "b_removes sample_buffer = []" "mapRemoves sample_buffer = []"
    "addedSet sample_buffer = []" "movedSet sample_buffer = []" by code_simp+
  have i: "(5::int) \<noteq> IGNORED_NODE" "(5::int) \<noteq> - 1" by (simp_all add: IGNORED_NODE_def)
  have A: "\<not> isIgnored sample_buffer 102" "\<not> isBlocked page_moved 102"
    "\<not> isAncestorRemoved page_moved sample_buffer 102" by code_simp+
  have B: "parentNode page_moved 104 = Some 103" "\<not> isIgnored sample_buffer 103"
    "\<not> isBlocked page_moved 103" "getId sample_buffer 103 \<noteq> - 1"
    "contains page_moved 100 104" by code_simp+
  have nx: "getNextId page_moved sample_buffer 104 \<noteq> Some (- 1)" by code_simp
  have ni: "nodeInfo page_moved 104 = Some (plain 104 ElementNode ''p'')"
    "kind (plain 104 ElementNode ''p'') \<noteq> FragmentNode" by code_simp+
  have v: "getId sample_buffer 102 = 3" "getId sample_buffer 103 = 4"
    "getNextId page_moved sample_buffer 104 = None"
    "serialized (plain 104 ElementNode ''p'') 5 = sn_plain 5 Element ''p''"
    "emitted sample_buffer = []" by code_simp+
  from C3_relocation_emits_add_and_remove [OF run e sample_owns i A B nx ni]
  show ?thesis by (simp add: v)
qed

text \<open>
  C4 (as stated: the delta has no entry for the node or for any of its descendants). A
  new span takes the paragraph with id 5 out of the div with id 4, and is added to
  another div and removed again in the same window. The paragraph is a descendant of
  the span, and the delta reports its removal from the div.
\<close>

theorem C4_descendant_with_id_counterexample:
  "subrefs page_taken 200 = [200, 104]
   \<and> getId sample_buffer 104 = 5
   \<and> emitted (processMutations page_taken 100 (ChildList 103 [] [104] # add_then_remove 102 200)
         sample_buffer)
       = [\<lparr>texts = [], attributes = [],
           removes = [\<lparr>r_parentId = 4, r_id = 5, r_isShadow = None\<rparr>], adds = []\<rparr>]"
  by code_simp

text \<open>
  C4 (amended). A newly created node (neither it nor any of its descendants carries an
  id; the identity map is well formed, which means that \<open>-1\<close> is not in use as an id)
  that is added and removed in the same window, and is outside the document with all
  its descendants when \<^verbatim>\<open>emit\<close> runs: the two records leave the pending removes as they
  were, no node of the subtree receives an id, and no add, text or attribute entry of
  the delta carries the id of a node of the subtree.
\<close>

theorem C4_added_then_removed_leaves_no_entry:
  assumes wf: "ids_wellformed st"
    and fresh: "\<forall>d\<in>set (subrefs F n). map_of (sn_atlas st) d = None"
    and gone: "\<forall>d\<in>set (subrefs F n). \<not> contains F doc d"
  shows "(emitted (processMutations F doc (add_then_remove P n) st) = emitted st
          \<or> emitted (processMutations F doc (add_then_remove P n) st)
              = emitted st @ [pending_delta F doc (add_then_remove P n) st])
       \<and> removes (pending_delta F doc (add_then_remove P n) st) = b_removes st
       \<and> (\<forall>d\<in>set (subrefs F n).
             getId (processMutations F doc (add_then_remove P n) st) d = - 1
             \<and> (\<forall>a\<in>set (adds (pending_delta F doc (add_then_remove P n) st)).
                   sn_id (a_node a) \<noteq> getId (processMutations F doc (add_then_remove P n) st) d)
             \<and> (\<forall>t\<in>set (texts (pending_delta F doc (add_then_remove P n) st)).
                   t_id t \<noteq> getId (processMutations F doc (add_then_remove P n) st) d)
             \<and> (\<forall>t\<in>set (attributes (pending_delta F doc (add_then_remove P n) st)).
                   at_id t \<noteq> getId (processMutations F doc (add_then_remove P n) st) d))"
proof -
  let ?sb = "fold (processMutation F) (add_then_remove P n) st"
  let ?s4 = "emit_prepare F doc ?sb"
  let ?p = "pending_delta F doc (add_then_remove P n) st"
  have p: "?p = compose_payload ?s4" by (simp add: pending_delta_def)
  from fresh self_in_subrefs [of n F] have "map_of (sn_atlas st) n = None" by blast
  from idframe_add_then_remove [OF this, of F P]
  have fr: "frozen ?sb = frozen st" "locked ?sb = locked st" "b_removes ?sb = b_removes st"
    "mirror_map ?sb = mirror_map st" "sn_atlas ?sb = sn_atlas st" "next_id ?sb = next_id st"
    "emitted ?sb = emitted st"
    by (simp_all add: idframe_def)
  have wfb: "ids_wellformed ?sb"
    using wf fr by (simp add: ids_wellformed_def)
  have frb: "\<forall>d\<in>set (subrefs F n). map_of (sn_atlas ?sb) d = None"
    using fresh fr by simp
  have u: "unseen (set (subrefs F n)) ?s4"
    using wfb frb gone by (rule unseen_emit_prepare)
  from kept_emit_prepare [of F doc ?sb] fr
  have k: "b_removes ?s4 = b_removes st" "emitted ?s4 = emitted st"
    by (simp_all add: kept_def)
  have em: "emitted (processMutations F doc (add_then_remove P n) st) = emitted st
          \<or> emitted (processMutations F doc (add_then_remove P n) st) = emitted st @ [?p]"
    using fr k p by (simp add: processMutations_def emit_def Let_def reset_buffers_def)
  have rm: "removes ?p = b_removes st"
    using k p by (simp add: compose_payload_def)
  from u have wf4: "ids_wellformed ?s4" and fr4: "\<forall>d\<in>set (subrefs F n). map_of (sn_atlas ?s4) d = None"
    and ad4: "\<forall>a\<in>set (e_adds ?s4). sn_id (a_node a) \<noteq> - 1"
    by (simp_all add: unseen_def)
  have sn_final: "sn_atlas (processMutations F doc (add_then_remove P n) st) = sn_atlas ?s4
                  \<or> sn_atlas (processMutations F doc (add_then_remove P n) st) = sn_atlas st"
    using fr by (simp add: processMutations_def emit_def Let_def reset_buffers_def)
  have gid: "getId (processMutations F doc (add_then_remove P n) st) d = - 1"
    if "d \<in> set (subrefs F n)" for d
    using sn_final fr4 fresh that by (auto simp: getId_def)
  have ads: "\<forall>a\<in>set (adds ?p). sn_id (a_node a) \<noteq> - 1"
    using ad4 p by (simp add: compose_payload_def)
  have m1: "\<not> mirror_has ?s4 (- 1)"
    using wf_fields(1) [OF wf4] by (simp add: mirror_has_def)
  have txs: "\<forall>t\<in>set (texts ?p). t_id t \<noteq> - 1"
    using m1 unfolding p by (auto simp: compose_payload_def)
  have ats: "\<forall>t\<in>set (attributes ?p). at_id t \<noteq> - 1"
    using m1 unfolding p by (auto simp: compose_payload_def)
  from em rm ads txs ats show ?thesis by (simp add: gid)
qed

theorem C4_added_then_removed_witness:
  "emitted (processMutations page_detached 100 (add_then_remove 102 200) sample_buffer) = []
   \<and> removes (pending_delta page_detached 100 (add_then_remove 102 200) sample_buffer) = []
   \<and> adds (pending_delta page_detached 100 (add_then_remove 102 200) sample_buffer) = []
   \<and> getId (processMutations page_detached 100 (add_then_remove 102 200) sample_buffer) 200 = - 1
   \<and> getId (processMutations page_detached 100 (add_then_remove 102 200) sample_buffer) 201 = - 1"
proof -
  have sub: "subrefs page_detached 200 = [200, 201]" by code_simp
  have fresh: "\<forall>d\<in>set (subrefs page_detached 200). map_of (sn_atlas sample_buffer) d = None"
    unfolding sub by code_simp
  have gone: "\<forall>d\<in>set (subrefs page_detached 200). \<not> contains page_detached 100 d"
    unfolding sub by code_simp
  have v: "b_removes sample_buffer = []" "emitted sample_buffer = []" by code_simp+
  have a: "adds (pending_delta page_detached 100 (add_then_remove 102 200) sample_buffer) = []"
    by code_simp
  have e: "emitted (processMutations page_detached 100 (add_then_remove 102 200) sample_buffer) = []"
    by code_simp
  from C4_added_then_removed_leaves_no_entry [OF sample_wellformed fresh gone, of 102]
  show ?thesis by (simp add: sub v a e)
qed

text \<open>
  C5 (as stated: with \<^verbatim>\<open>nextId: -1\<close> node 10 becomes the last child of node 1). The node
  is built, and then the branch for legacy data returns before anything is attached:
  node 1 has no child afterwards, with or without a virtual parent and Flush.
\<close>

theorem C5_legacy_sentinel_counterexample:
  "childNodes (forest (snd (applyMutation 1 (add10 (Some (- 1))) False root_only))) 100 = []
   \<and> fst (applyMutation 1 (add10 (Some (- 1))) False root_only) = None
   \<and> childNodes (forest (snd (then_do (applyMutation 1 (add10 (Some (- 1))) True root_only) flush))) 100 = []"
  by code_simp

text \<open>
  C5 (amended). With \<^verbatim>\<open>nextId: null\<close> the delta appends node 10 as the last (and only)
  child of node 1, directly or through a virtual parent and Flush, and the identity map
  gives id 10 for the new node. With \<^verbatim>\<open>nextId: -1\<close> the node is built and registered
  under id 10, kept in the map of missing nodes, and has no parent.
\<close>

theorem C5_append_as_last_child:
  "fst (applyMutation passes (add10 None) False root_only) = None
   \<and> childNodes (forest (snd (applyMutation passes (add10 None) False root_only))) 100 = [1000]
   \<and> nodeInfo (forest (snd (applyMutation passes (add10 None) False root_only))) 1000
       = Some (plain 1000 ElementNode ''div'')
   \<and> mirror_getId (snd (applyMutation passes (add10 None) False root_only)) 1000 = 10
   \<and> getNode (snd (applyMutation passes (add10 None) False root_only)) 10 = Some 1000
   \<and> childNodes (forest (snd (then_do (applyMutation passes (add10 None) True root_only) flush))) 100
       = [1001]
   \<and> mirror_getId (snd (then_do (applyMutation passes (add10 None) True root_only) flush)) 1001 = 10
   \<and> map_of (legacy_missingNodeRetryMap (snd (applyMutation passes (add10 (Some (- 1))) False root_only))) 10
       = Some (1000, \<lparr>a_parentId = 1, a_nextId = Some (- 1), a_previousId = None,
                       a_node = sn_plain 10 Element ''div''\<rparr>)
   \<and> mirror_getId (snd (applyMutation passes (add10 (Some (- 1))) False root_only)) 1000 = 10
   \<and> parentNode (forest (snd (applyMutation passes (add10 (Some (- 1))) False root_only))) 1000 = None"
proof -
  have a: "applyMutation passes (add10 None) False root_only = applyMutation 0 (add10 None) False root_only"
    by (rule applyMutation_without_requeue) code_simp
  have b: "applyMutation passes (add10 None) True root_only = applyMutation 0 (add10 None) True root_only"
    by (rule applyMutation_without_requeue) code_simp
  have c: "applyMutation passes (add10 (Some (- 1))) False root_only
             = applyMutation 0 (add10 (Some (- 1))) False root_only"
    by (rule applyMutation_without_requeue) code_simp
  show ?thesis
    unfolding a b c by code_simp
qed

text \<open>
  C6. When \<^verbatim>\<open>emit\<close> is not suppressed by freeze or lock: with an empty payload the
  emission callback is not invoked; otherwise the callback is invoked once, with the
  payload, and the buffers of texts, attributes, removes, added, moved and dropped nodes
  and the moved map are empty afterwards.
\<close>

theorem C6_emit_callback:
  assumes "\<not> frozen st" and "\<not> locked st"
  shows "(payload_empty (compose_payload (emit_prepare F doc st)) \<longrightarrow>
            emitted (emit F doc st) = emitted st)
       \<and> (\<not> payload_empty (compose_payload (emit_prepare F doc st)) \<longrightarrow>
            emitted (emit F doc st) = emitted st @ [compose_payload (emit_prepare F doc st)]
            \<and> b_texts (emit F doc st) = [] \<and> b_attributes (emit F doc st) = []
            \<and> b_removes (emit F doc st) = [] \<and> addedSet (emit F doc st) = []
            \<and> movedSet (emit F doc st) = [] \<and> droppedSet (emit F doc st) = []
            \<and> movedMap (emit F doc st) = [])"
proof -
  have "emitted (emit_prepare F doc st) = emitted st"
    using kept_emit_prepare [of F doc st] by (simp add: kept_def)
  with assms show ?thesis
    by (simp add: emit_def Let_def reset_buffers_def)
qed

theorem C6_emit_callback_witness:
  "emitted (emit page_moved 100 relocated_buffer) =
     [\<lparr>texts = [], attributes = [],
       removes = [\<lparr>r_parentId = 3, r_id = 5, r_isShadow = None\<rparr>],
       adds = [\<lparr>a_parentId = 4, a_nextId = None, a_previousId = None,
                a_node = sn_plain 5 Element ''p''\<rparr>]\<rparr>]
   \<and> b_removes (emit page_moved 100 relocated_buffer) = []
   \<and> movedSet (emit page_moved 100 relocated_buffer) = []
   \<and> emitted (emit page_moved 100 sample_buffer) = []"
proof -
  have r: "\<not> frozen relocated_buffer" "\<not> locked relocated_buffer"
    "\<not> frozen sample_buffer" "\<not> locked sample_buffer" by code_simp+
  have p: "compose_payload (emit_prepare page_moved 100 relocated_buffer) =
     \<lparr>texts = [], attributes = [],
       removes = [\<lparr>r_parentId = 3, r_id = 5, r_isShadow = None\<rparr>],
       adds = [\<lparr>a_parentId = 4, a_nextId = None, a_previousId = None,
                a_node = sn_plain 5 Element ''p''\<rparr>]\<rparr>" by code_simp
  have q: "payload_empty (compose_payload (emit_prepare page_moved 100 sample_buffer))"
    "\<not> payload_empty (compose_payload (emit_prepare page_moved 100 relocated_buffer))"
    by code_simp+
  have v: "emitted relocated_buffer = []" "emitted sample_buffer = []" by code_simp+
  from C6_emit_callback [OF r(1,2), of page_moved 100] C6_emit_callback [OF r(3,4), of page_moved 100]
  show ?thesis by (simp add: q v) (simp add: p)
qed

text \<open>
  C7 (as stated: the loop over the pending list is bounded by wall-clock time). The
  source's loop reads no clock: on a pending list that takes two passes it serializes
  both entries, where the time-bounded loop of the specification, with time for one
  pass, serializes one.
\<close>

theorem C7_wall_clock_counterexample:
  "addList pending_state = [200, 201]
   \<and> length (e_adds pending_state) = 1
   \<and> length (e_adds (resolveAddList page_pending 100 None pending_state)) = 3
   \<and> length (e_adds (resolveAddList_timed 1 page_pending 100 None pending_state)) = 2"
  by code_simp

text \<open>
  C7 (amended). The loop over the pending list terminates on every input (the function
  is total, by the decreasing length of the list): it ends with an empty list, emits at
  most one add for each pending entry, a pass that finds no resolvable entry discards
  the remainder, and a time bound that allows one pass for each pending entry never
  cuts it short.
\<close>

theorem C7_pending_loop_terminates:
  "addList (resolveAddList F doc c st) = []
   \<and> length (e_adds (resolveAddList F doc c st)) \<le> length (e_adds st) + length (addList st)
   \<and> (pick F c st = None \<longrightarrow> resolveAddList F doc c st = st\<lparr>addList := []\<rparr>)
   \<and> (\<forall>budget. length (addList st) \<le> budget \<longrightarrow>
         resolveAddList_timed budget F doc c st = resolveAddList F doc c st)"
proof -
  have "resolveAddList F doc c st = st\<lparr>addList := []\<rparr>" if "pick F c st = None"
    using that by (cases "addList st = []") (simp_all add: resolveAddList.simps [of F doc c st])
  with resolveAddList_result [of F doc c st] resolveAddList_timed_enough [of st _ F doc c]
  show ?thesis by blast
qed

theorem C7_pending_loop_witness:
  "addList (resolveAddList page_pending 100 None pending_state) = []
   \<and> resolveAddList_timed 2 page_pending 100 None pending_state
       = resolveAddList page_pending 100 None pending_state
   \<and> resolveAddList page_pending 100 None (sample_buffer\<lparr>addList := [201]\<rparr>)
       = sample_buffer\<lparr>addList := []\<rparr>"
proof -
  have l: "length (addList pending_state) \<le> 2" by code_simp
  have n: "pick page_pending None (sample_buffer\<lparr>addList := [201]\<rparr>) = None" by code_simp
  from C7_pending_loop_terminates [of page_pending 100 None pending_state]
       C7_pending_loop_terminates [of page_pending 100 None "sample_buffer\<lparr>addList := [201]\<rparr>"]
  show ?thesis using l n by simp
qed

text \<open>
  C8. A remove, text or attribute mutation whose id the identity map does not have raises
  nothing, and the callback goes on with the next mutation. For a remove the
  node-not-found warning is left out when the delta has a remove of the mutation's
  parent id; for a text or an attribute it is left out when the delta has a remove of the
  mutation's own id; otherwise the warning is given (\<^verbatim>\<open>warn\<close> prints it when warnings are
  switched on).
\<close>

theorem C8_missing_target_is_diagnosed:
  "(getNode st (r_id rm) = None \<longrightarrow>
      applyRemove d rm st =
        (None, if list_ex (\<lambda>r. r_id r = r_parentId rm) (removes d)
               then started Removes (r_id rm) st
               else warn (NodeNotFound (r_id rm)) (started Removes (r_id rm) st))
      \<and> forEach (applyRemove d) (rm # rms) st
           = forEach (applyRemove d) rms (snd (applyRemove d rm st)))
   \<and> (getNode st (t_id tm) = None \<longrightarrow>
      applyText d tm st =
        (None, if list_ex (\<lambda>r. r_id r = t_id tm) (removes d)
               then started Texts (t_id tm) st
               else warn (NodeNotFound (t_id tm)) (started Texts (t_id tm) st))
      \<and> forEach (applyText d) (tm # tms) st
           = forEach (applyText d) tms (snd (applyText d tm st)))
   \<and> (getNode st (at_id am) = None \<longrightarrow>
      applyAttribute useVirtualParent d am st =
        (None, if list_ex (\<lambda>r. r_id r = at_id am) (removes d)
               then started Attributes (at_id am) st
               else warn (NodeNotFound (at_id am)) (started Attributes (at_id am) st))
      \<and> forEach (applyAttribute useVirtualParent d) (am # ams) st
           = forEach (applyAttribute useVirtualParent d) ams
               (snd (applyAttribute useVirtualParent d am st)))"
proof (intro conjI impI)
  assume a: "getNode st (r_id rm) = None"
  then show r: "applyRemove d rm st =
        (None, if list_ex (\<lambda>r. r_id r = r_parentId rm) (removes d)
               then started Removes (r_id rm) st
               else warn (NodeNotFound (r_id rm)) (started Removes (r_id rm) st))"
    by (simp add: applyRemove_def Let_def find_None_list_ex find_Some_list_ex warnNodeNotFound_def)
  then show "forEach (applyRemove d) (rm # rms) st
           = forEach (applyRemove d) rms (snd (applyRemove d rm st))"
    by simp
next
  assume a: "getNode st (t_id tm) = None"
  then show r: "applyText d tm st =
        (None, if list_ex (\<lambda>r. r_id r = t_id tm) (removes d)
               then started Texts (t_id tm) st
               else warn (NodeNotFound (t_id tm)) (started Texts (t_id tm) st))"
    by (simp add: applyText_def Let_def find_None_list_ex find_Some_list_ex warnNodeNotFound_def)
  then show "forEach (applyText d) (tm # tms) st
           = forEach (applyText d) tms (snd (applyText d tm st))"
    by simp
next
  assume a: "getNode st (at_id am) = None"
  then show r: "applyAttribute useVirtualParent d am st =
        (None, if list_ex (\<lambda>r. r_id r = at_id am) (removes d)
               then started Attributes (at_id am) st
               else warn (NodeNotFound (at_id am)) (started Attributes (at_id am) st))"
    by (simp add: applyAttribute_def Let_def find_None_list_ex find_Some_list_ex warnNodeNotFound_def)
  then show "forEach (applyAttribute useVirtualParent d) (am # ams) st
           = forEach (applyAttribute useVirtualParent d) ams
               (snd (applyAttribute useVirtualParent d am st))"
    by simp
qed

theorem C8_missing_target_witness:
  "applyRemove orphan_delta \<lparr>r_parentId = 3, r_id = 50, r_isShadow = None\<rparr> two_spans
     = (None, warn (NodeNotFound 50) (started Removes 50 two_spans))
   \<and> applyRemove orphan_delta \<lparr>r_parentId = 50, r_id = 52, r_isShadow = None\<rparr> two_spans
     = (None, started Removes 52 two_spans)
   \<and> applyText orphan_delta \<lparr>t_id = 50, t_value = Some ''x''\<rparr> two_spans
     = (None, started Texts 50 two_spans)
   \<and> applyAttribute False orphan_delta \<lparr>at_id = 51, at_attributes = []\<rparr> two_spans
     = (None, warn (NodeNotFound 51) (started Attributes 51 two_spans))
   \<and> fst (applyMutation 1 orphan_delta False two_spans) = None
   \<and> console (snd (applyMutation 1 orphan_delta False two_spans)) = [NodeNotFound 50, NodeNotFound 51]"
proof -
  have g: "getNode two_spans 50 = None" "getNode two_spans 51 = None" "getNode two_spans 52 = None"
    by code_simp+
  have l: "\<not> list_ex (\<lambda>r. r_id r = 3) (removes orphan_delta)"
          "list_ex (\<lambda>r. r_id r = 50) (removes orphan_delta)"
          "\<not> list_ex (\<lambda>r. r_id r = 51) (removes orphan_delta)"
    by code_simp+
  have m: "fst (applyMutation 1 orphan_delta False two_spans) = None"
          "console (snd (applyMutation 1 orphan_delta False two_spans)) = [NodeNotFound 50, NodeNotFound 51]"
    by code_simp+
  note a = C8_missing_target_is_diagnosed
     [where st = two_spans and d = orphan_delta
        and rm = "\<lparr>r_parentId = 3, r_id = 50, r_isShadow = None\<rparr>"
        and tm = "\<lparr>t_id = 50, t_value = Some ''x''\<rparr>"
        and am = "\<lparr>at_id = 51, at_attributes = []\<rparr>" and useVirtualParent = False]
  note b = C8_missing_target_is_diagnosed
     [where st = two_spans and d = orphan_delta
        and rm = "\<lparr>r_parentId = 50, r_id = 52, r_isShadow = None\<rparr>"
        and tm = "\<lparr>t_id = 50, t_value = Some ''x''\<rparr>"
        and am = "\<lparr>at_id = 51, at_attributes = []\<rparr>" and useVirtualParent = False]
  from a g l have r1: "applyRemove orphan_delta \<lparr>r_parentId = 3, r_id = 50, r_isShadow = None\<rparr> two_spans
     = (None, warn (NodeNotFound 50) (started Removes 50 two_spans))"
    by simp
  from b g l have r2: "applyRemove orphan_delta \<lparr>r_parentId = 50, r_id = 52, r_isShadow = None\<rparr> two_spans
     = (None, started Removes 52 two_spans)"
    by simp
  from a g l have r3: "applyText orphan_delta \<lparr>t_id = 50, t_value = Some ''x''\<rparr> two_spans
     = (None, started Texts 50 two_spans)"
    by simp
  from a g l have r4: "applyAttribute False orphan_delta \<lparr>at_id = 51, at_attributes = []\<rparr> two_spans
     = (None, warn (NodeNotFound 51) (started Attributes 51 two_spans))"
    by simp
  from r1 r2 r3 r4 m show ?thesis by blast
qed




text \<open>
  C10. Without live mode, fewer than two events make the constructor throw
  'Replayer need at least 2 events.'; with live mode set, the check accepts an event
  list of any length, the empty one included.
\<close>

theorem C10_constructor_event_count:
  "(\<not> liveMode_truthy config \<and> length evs < 2 \<longrightarrow>
      Replayer_constructor_check config evs = Inl (Error ''Replayer need at least 2 events.''))
   \<and> (liveMode_truthy config \<longrightarrow> Replayer_constructor_check config evs = Inr ())"
  by (simp add: Replayer_constructor_check_def)

theorem C10_constructor_event_count_witness:
  "Replayer_constructor_check None [0::nat] = Inl (Error ''Replayer need at least 2 events.'')
   \<and> Replayer_constructor_check (Some \<lparr>liveMode = Some False\<rparr>) ([] :: nat list)
       = Inl (Error ''Replayer need at least 2 events.'')
   \<and> Replayer_constructor_check (Some \<lparr>liveMode = Some True\<rparr>) ([] :: nat list) = Inr ()"
  using C10_constructor_event_count [of None "[0::nat]"]
        C10_constructor_event_count [of "Some \<lparr>liveMode = Some False\<rparr>" "[] :: nat list"]
        C10_constructor_event_count [of "Some \<lparr>liveMode = Some True\<rparr>" "[] :: nat list"]
  by (simp add: liveMode_truthy_def)

end
